theory Spec2Isabelle
  imports Main
begin

section \<open>Python strings\<close>

text \<open>
  A Python \<open>str\<close> is modelled as a \<^typ>\<open>string\<close>: a list of characters whose code
  points lie in U+0000..U+00FF. Every character predicate below follows what CPython
  computes on that range (\<open>str.lower\<close>, \<open>str.isspace\<close>, and the classes
  \<open>\d\<close>, \<open>\s\<close>, \<open>\w\<close> of \<open>re\<close> on \<open>str\<close> patterns).
\<close>

definition code :: "char \<Rightarrow> nat" where
  "code c = of_char c"

text \<open>
  What an external capability raises: an instance of \<open>Exception\<close>, kept with the
  text of \<open>str(e)\<close>.
\<close>

datatype py_exception = PyException string

text \<open>\<open>needle in haystack\<close> and \<open>str.startswith\<close>.\<close>

fun startswith :: "string \<Rightarrow> string \<Rightarrow> bool" where
  "startswith s [] = True"
| "startswith [] (p # ps) = False"
| "startswith (c # cs) (p # ps) = (c = p \<and> startswith cs ps)"

fun str_in :: "string \<Rightarrow> string \<Rightarrow> bool" where
  "str_in sub [] = (sub = [])"
| "str_in sub (c # cs) = (startswith (c # cs) sub \<or> str_in sub cs)"

definition is_digit :: "char \<Rightarrow> bool" where
  "is_digit c = (48 \<le> code c \<and> code c \<le> 57)"

definition is_space :: "char \<Rightarrow> bool" where
  "is_space c = ((9 \<le> code c \<and> code c \<le> 13) \<or> (28 \<le> code c \<and> code c \<le> 32)
                 \<or> code c = 133 \<or> code c = 160)"

definition is_word :: "char \<Rightarrow> bool" where
  "is_word c = ((48 \<le> code c \<and> code c \<le> 57) \<or> (65 \<le> code c \<and> code c \<le> 90) \<or> code c = 95
                \<or> (97 \<le> code c \<and> code c \<le> 122) \<or> code c = 170 \<or> code c = 178 \<or> code c = 179
                \<or> code c = 181 \<or> code c = 185 \<or> code c = 186
                \<or> (188 \<le> code c \<and> code c \<le> 190) \<or> (192 \<le> code c \<and> code c \<le> 214)
                \<or> (216 \<le> code c \<and> code c \<le> 246) \<or> 248 \<le> code c)"

definition lower_char :: "char \<Rightarrow> char" where
  "lower_char c =
     (if (65 \<le> code c \<and> code c \<le> 90) \<or> (192 \<le> code c \<and> code c \<le> 214)
         \<or> (216 \<le> code c \<and> code c \<le> 222)
      then char_of (code c + 32) else c)"

definition lower :: "string \<Rightarrow> string" where
  "lower s = map lower_char s"

text \<open>\<open>s.split()\<close>: the maximal runs of non-whitespace characters.\<close>

fun split_ws :: "string \<Rightarrow> string \<Rightarrow> string list" where
  "split_ws cur [] = (if cur = [] then [] else [cur])"
| "split_ws cur (c # cs) =
     (if is_space c then (if cur = [] then split_ws [] cs else cur # split_ws [] cs)
      else split_ws (cur @ [c]) cs)"

definition str_split :: "string \<Rightarrow> string list" where
  "str_split s = split_ws [] s"

text \<open>\<open>s.split(sep)\<close> for a one-character separator: never empty.\<close>

fun split_sep :: "char \<Rightarrow> string \<Rightarrow> string \<Rightarrow> string list" where
  "split_sep sep cur [] = [cur]"
| "split_sep sep cur (c # cs) =
     (if c = sep then cur # split_sep sep [] cs else split_sep sep (cur @ [c]) cs)"

definition str_split_on :: "char \<Rightarrow> string \<Rightarrow> string list" where
  "str_split_on sep s = split_sep sep [] s"

text \<open>\<open>s.find(c)\<close> and \<open>s.rfind(c)\<close> for a one-character needle: an index, or -1.\<close>

fun str_find :: "char \<Rightarrow> string \<Rightarrow> int" where
  "str_find c [] = - 1"
| "str_find c (x # xs) = (if x = c then 0 else (let r = str_find c xs in if r < 0 then - 1 else r + 1))"

definition str_rfind :: "char \<Rightarrow> string \<Rightarrow> int" where
  "str_rfind c s = (let r = str_find c (rev s) in if r < 0 then - 1 else int (length s) - 1 - r)"

text \<open>The slice \<open>s[a:b]\<close> for indices \<open>0 \<le> a \<le> b\<close>.\<close>

definition slice :: "string \<Rightarrow> nat \<Rightarrow> nat \<Rightarrow> string" where
  "slice s a b = take (b - a) (drop a s)"

section \<open>The fragment of \<open>re\<close> that the program uses\<close>

text \<open>
  Patterns are kept as syntax trees. A class item is a range, a single character,
  \<open>\d\<close> or \<open>\s\<close>; \<open>Cls items lo hi\<close> is the greedy repetition
  \<open>[items]{lo,hi}\<close> (\<open>hi = None\<close>: unbounded), which covers \<open>+\<close>, \<open>*\<close>, \<open>?\<close>
  and a bare class. \<open>WordB\<close> is \<open>\b\<close>, \<open>Grp\<close> a capturing group (the program's
  patterns have at most one), \<open>Alt\<close> the alternation \<open>|\<close>.
\<close>

datatype cls_item = Range char char | One char | Digit | Space

fun in_item :: "char \<Rightarrow> cls_item \<Rightarrow> bool" where
  "in_item c (Range a b) = (code a \<le> code c \<and> code c \<le> code b)"
| "in_item c (One a) = (c = a)"
| "in_item c Digit = is_digit c"
| "in_item c Space = is_space c"

definition in_cls :: "cls_item list \<Rightarrow> char \<Rightarrow> bool" where
  "in_cls items c = list_ex (in_item c) items"

datatype regex =
    Lit string
  | Cls "cls_item list" nat "nat option"
  | WordB
  | Seq regex regex
  | Alt regex regex
  | Grp regex

fun seqs :: "regex list \<Rightarrow> regex" where
  "seqs [] = Lit []"
| "seqs [r] = r"
| "seqs (r # rs) = Seq r (seqs rs)"

fun has_group :: "regex \<Rightarrow> bool" where
  "has_group (Seq a b) = (has_group a \<or> has_group b)"
| "has_group (Alt a b) = (has_group a \<or> has_group b)"
| "has_group (Grp a) = True"
| "has_group r = False"

text \<open>\<open>\b\<close> at index \<open>i\<close>: exactly one of the two neighbours is a word character.\<close>

definition word_at :: "string \<Rightarrow> nat \<Rightarrow> bool" where
  "word_at text i = (i < length text \<and> is_word (text ! i))"

definition at_boundary :: "string \<Rightarrow> nat \<Rightarrow> bool" where
  "at_boundary text i = ((0 < i \<and> word_at text (i - 1)) \<noteq> word_at text i)"

text \<open>
  The backtracking matcher. A state is the current index and the span of the group,
  if it has closed. \<open>ms r text st\<close> lists the states in which a match of \<open>r\<close> started
  in \<open>st\<close> can end, in the order in which the engine tries them: a greedy repetition
  from the longest to the shortest, an alternation from left to right. The engine
  takes the first.
\<close>

type_synonym mstate = "nat \<times> (nat \<times> nat) option"

fun ms :: "regex \<Rightarrow> string \<Rightarrow> mstate \<Rightarrow> mstate list" where
  "ms (Lit l) text (i, g) =
     (if take (length l) (drop i text) = l then [(i + length l, g)] else [])"
| "ms (Cls items lo hi) text (i, g) =
     (let run = length (takeWhile (in_cls items) (drop i text));
          most = (case hi of None \<Rightarrow> run | Some h \<Rightarrow> min run h)
      in if most < lo then [] else map (\<lambda>n. (i + n, g)) (rev [lo ..< Suc most]))"
| "ms WordB text (i, g) = (if at_boundary text i then [(i, g)] else [])"
| "ms (Seq a b) text st = concat (map (ms b text) (ms a text st))"
| "ms (Alt a b) text st = ms a text st @ ms b text st"
| "ms (Grp a) text (i, g) = map (\<lambda>(j, _). (j, Some (i, j))) (ms a text (i, g))"

text \<open>
  One search of \<open>findall\<close>: the start indices are tried from left to right. After an
  empty match the engine must advance: at the first index tried, a match that ends
  where it starts is refused.
\<close>

type_synonym match = "nat \<times> nat \<times> (nat \<times> nat) option"

fun scan :: "regex \<Rightarrow> string \<Rightarrow> nat option \<Rightarrow> nat list \<Rightarrow> match option" where
  "scan r text refused [] = None"
| "scan r text refused (i # is) =
     (case filter (\<lambda>(j, g). refused \<noteq> Some j) (ms r text (i, None)) of
        [] \<Rightarrow> scan r text None is
      | (j, g) # _ \<Rightarrow> Some (i, j, g))"

definition search_from :: "regex \<Rightarrow> string \<Rightarrow> nat \<Rightarrow> bool \<Rightarrow> match option" where
  "search_from r text start must_advance =
     scan r text (if must_advance then Some start else None) [start ..< Suc (length text)]"

lemma ms_mono: "(j, g') \<in> set (ms r text (i, g)) \<Longrightarrow> i \<le> j"
proof (induction r arbitrary: i g j g')
  case (Lit l)
  then show ?case by (auto split: if_splits)
next
  case (Cls items lo hi)
  then show ?case by (auto simp: Let_def split: if_splits)
next
  case WordB
  then show ?case by (auto split: if_splits)
next
  case (Seq a b)
  then obtain k gk where "(k, gk) \<in> set (ms a text (i, g))" "(j, g') \<in> set (ms b text (k, gk))"
    by auto
  with Seq.IH show ?case by (meson le_trans)
next
  case (Alt a b)
  then show ?case by auto
next
  case (Grp a)
  then show ?case by auto
qed

lemma scan_bounds:
  "scan r text refused is = Some (i, j, g) \<Longrightarrow> sorted_wrt (<) is \<Longrightarrow>
     i \<in> set is \<and> i \<le> j \<and> (\<forall>s. refused = Some s \<and> s \<le> hd is \<longrightarrow> s < j)"
proof (induction "is" arbitrary: refused)
  case Nil
  then show ?case by simp
next
  case (Cons a "is")
  show ?case
  proof (cases "filter (\<lambda>(j, g). refused \<noteq> Some j) (ms r text (a, None))")
    case Nil
    with Cons.prems have "scan r text None is = Some (i, j, g)" by simp
    with Cons.IH Cons.prems(2) have "i \<in> set is" "i \<le> j" by auto
    moreover from Cons.prems(2) \<open>i \<in> set is\<close> have "a < i" by auto
    ultimately show ?thesis by auto
  next
    case (Cons p ps)
    with Cons.prems have p: "p = (j, g)" "i = a" by (auto split: prod.splits)
    from Cons have "p \<in> set (filter (\<lambda>(j, g). refused \<noteq> Some j) (ms r text (a, None)))" by simp
    with p have "(j, g) \<in> set (ms r text (a, None))" "refused \<noteq> Some j" by auto
    with ms_mono p show ?thesis by fastforce
  qed
qed

text \<open>
  \<open>re.findall\<close>: search, keep the match, search again from its end, until a search
  fails. The next search starts where the match ended and must advance if the match
  was empty.
\<close>

function findall_from :: "regex \<Rightarrow> string \<Rightarrow> nat \<Rightarrow> bool \<Rightarrow> match list" where
  "findall_from r text start must_advance =
     (case search_from r text start must_advance of
        None \<Rightarrow> []
      | Some (i, j, g) \<Rightarrow> (i, j, g) # findall_from r text j (j = i))"
  by pat_completeness auto
termination
proof (relation "measure (\<lambda>(r, text, start, adv).
    2 * (Suc (length text) - start) + (if adv then 0 else 1))", goal_cases)
  case 1
  show ?case by simp
next
  case (2 r tx start must_advance m i y j g)
  then have s: "scan r tx (if must_advance then Some start else None)
      [start ..< Suc (length tx)] = Some (i, j, g)"
    by (simp add: search_from_def)
  note sb = scan_bounds [OF s sorted_wrt_upt]
  from sb have i: "start \<le> i" "i < Suc (length tx)" "i \<le> j"
    by (simp_all del: upt_Suc)
  then have "hd [start ..< Suc (length tx)] = start"
    by (simp del: upt_Suc)
  with sb have "must_advance \<longrightarrow> start < j"
    by (simp del: upt_Suc)
  with i show ?case by auto
qed

declare findall_from.simps [simp del]

text \<open>
  The items of the list that \<open>findall\<close> returns: the text of the group when the
  pattern has one (empty when the group took no part), the whole match otherwise.
\<close>

definition match_item :: "regex \<Rightarrow> string \<Rightarrow> match \<Rightarrow> string" where
  "match_item r text m =
     (case m of (i, j, g) \<Rightarrow>
        if has_group r then (case g of None \<Rightarrow> [] | Some (a, b) \<Rightarrow> slice text a b)
        else slice text i j)"

definition findall :: "regex \<Rightarrow> string \<Rightarrow> string list" where
  "findall r text = map (match_item r text) (findall_from r text 0 False)"

text \<open>\<open>re.search(p, s)\<close> as a truth value.\<close>

definition search :: "regex \<Rightarrow> string \<Rightarrow> bool" where
  "search r text = (search_from r text 0 False \<noteq> None)"

text \<open>
  What it means for the text between the indices \<open>i\<close> and \<open>j\<close> to match a pattern,
  stated on the pattern alone, with no order of trial: the reading of a pattern that
  the matcher is compared with.
\<close>

fun rmatch :: "regex \<Rightarrow> string \<Rightarrow> nat \<Rightarrow> nat \<Rightarrow> bool" where
  "rmatch (Lit l) text i j = (j = i + length l \<and> take (length l) (drop i text) = l)"
| "rmatch (Cls items lo hi) text i j =
     (i \<le> j \<and> lo \<le> j - i \<and> (case hi of None \<Rightarrow> True | Some h \<Rightarrow> j - i \<le> h)
      \<and> (\<forall>k \<in> {i ..< j}. k < length text \<and> in_cls items (text ! k)))"
| "rmatch WordB text i j = (j = i \<and> at_boundary text i)"
| "rmatch (Seq a b) text i j = (\<exists>k \<in> {i .. j}. rmatch a text i k \<and> rmatch b text k j)"
| "rmatch (Alt a b) text i j = (rmatch a text i j \<or> rmatch b text i j)"
| "rmatch (Grp a) text i j = rmatch a text i j"

section \<open>resume_parser.py\<close>

text \<open>\<open>ResumeParser._load_skill_keywords\<close>.\<close>

definition skill_keywords :: "string list" where
  "skill_keywords =
     [''python'', ''java'', ''javascript'', ''react'', ''node.js'', ''sql'', ''nosql'',
      ''aws'', ''docker'', ''kubernetes'', ''machine learning'', ''deep learning'',
      ''tensorflow'', ''pytorch'', ''data analysis'', ''tableau'', ''power bi'',
      ''agile'', ''scrum'', ''devops'', ''ci/cd'', ''git'', ''rest api'', ''graphql'',
      ''html'', ''css'', ''typescript'', ''angular'', ''vue'', ''mongodb'', ''postgresql'',
      ''mysql'', ''redis'', ''linux'', ''unix'', ''bash'', ''shell'', ''powershell'']"

text \<open>
  The list \<open>education_keywords\<close>. In the source \<open>'b\.'\<close> and \<open>'m\.'\<close> are
  ordinary string literals, where \<open>\.\<close> is no escape sequence: each is the three
  characters letter, backslash, dot.
\<close>

definition education_keywords :: "string list" where
  "education_keywords =
     [''bachelor'', ''master'', ''phd'', ''degree'', ''university'', ''college'',
      [CHR ''b'', CHR 0x5C, CHR ''.''], [CHR ''m'', CHR 0x5C, CHR ''.''], ''phd'']"

text \<open>
  The patterns. \<open>re.escape(k)\<close> is a pattern that matches the text \<open>k\<close> and nothing
  else, so \<open>r'\b' + re.escape(k) + r'\b'\<close> is \<open>keyword_pattern k\<close>.
\<close>

definition email_pattern :: regex where
  "email_pattern = seqs
     [WordB,
      Cls [Range CHR ''A'' CHR ''Z'', Range CHR ''a'' CHR ''z'', Range CHR ''0'' CHR ''9'',
           One CHR ''.'', One CHR ''_'', One CHR ''%'', One CHR ''+'', One CHR ''-''] 1 None,
      Lit ''@'',
      Cls [Range CHR ''A'' CHR ''Z'', Range CHR ''a'' CHR ''z'', Range CHR ''0'' CHR ''9'',
           One CHR ''.'', One CHR ''-''] 1 None,
      Lit ''.'',
      Cls [Range CHR ''A'' CHR ''Z'', One CHR ''|'', Range CHR ''a'' CHR ''z''] 2 None,
      WordB]"

definition phone_pattern :: regex where
  "phone_pattern = seqs
     [Cls [One CHR ''+'', One CHR ''(''] 0 (Some 1),
      Cls [Range CHR ''1'' CHR ''9''] 1 (Some 1),
      Cls [Range CHR ''0'' CHR ''9'', One CHR '' '', One CHR ''.'', One CHR ''-'',
           One CHR ''('', One CHR '')''] 8 None,
      Cls [Range CHR ''0'' CHR ''9''] 1 (Some 1)]"

definition years_pattern :: regex where
  "years_pattern = seqs
     [Grp (Cls [Digit] 1 None),
      Cls [Space] 0 None,
      Alt (Seq (Lit ''year'') (Cls [One CHR ''s''] 0 (Some 1)))
          (Seq (Lit ''yr'') (Cls [One CHR ''s''] 0 (Some 1)))]"

definition keyword_pattern :: "string \<Rightarrow> regex" where
  "keyword_pattern k = seqs [WordB, Lit k, WordB]"

record resume_facts =
  email :: string
  phone :: string
  skills :: "string list"
  education :: "string list"
  experience_years :: string
  raw_text :: string
  word_count :: nat
  character_count :: nat

text \<open>
  \<open>ResumeParser._extract_information\<close>. The two loops append the keywords that are
  found, in the order of the vocabulary. \<open>list(set(education))\<close> holds every element
  of \<open>education\<close> once, in an order that Python does not fix; \<open>remdups\<close> is one such
  list, and the properties below speak of its elements only.
\<close>

definition extract_information :: "string \<Rightarrow> resume_facts" where
  "extract_information text =
     (let email = findall email_pattern text;
          phone = findall phone_pattern text;
          education = filter (\<lambda>keyword. search (keyword_pattern keyword) (lower text))
                        education_keywords;
          found_skills = filter (\<lambda>skill. search (keyword_pattern skill) (lower text))
                           skill_keywords;
          experience_years = findall years_pattern (lower text);
          experience = (case experience_years of [] \<Rightarrow> ''Not specified'' | y # _ \<Rightarrow> y)
      in \<lparr>email = (case email of [] \<Rightarrow> ''Not found'' | e # _ \<Rightarrow> e),
          phone = (case phone of [] \<Rightarrow> ''Not found'' | p # _ \<Rightarrow> p),
          skills = found_skills,
          education = remdups education,
          experience_years = experience,
          raw_text = text,
          word_count = length (str_split text),
          character_count = length text\<rparr>)"

text \<open>
  The document readers are outside the program: \<open>PyPDF2.PdfReader\<close> with the
  \<open>extract_text\<close> of each page, \<open>docx.Document\<close> with the texts of its paragraphs,
  and \<open>file.read().decode('utf-8')\<close>. Each either returns or raises.
\<close>

type_synonym bytes = "char list"

record readers =
  pdf_reader :: "bytes \<Rightarrow> py_exception + (py_exception + string) list"
  docx_document :: "bytes \<Rightarrow> py_exception + string list"
  read_decode :: "bytes \<Rightarrow> py_exception + string"

text \<open>The loop \<open>text += page.extract_text() + "\n"\<close>, stopped by the first exception.\<close>

fun pdf_pages :: "string \<Rightarrow> (py_exception + string) list \<Rightarrow> py_exception + string" where
  "pdf_pages text [] = Inr text"
| "pdf_pages text (Inl e # pages) = Inl e"
| "pdf_pages text (Inr t # pages) = pdf_pages (text @ t @ ''\<newline>'') pages"

text \<open>\<open>"\n".join(xs)\<close>.\<close>

fun join_lines :: "string list \<Rightarrow> string" where
  "join_lines [] = []"
| "join_lines [x] = x"
| "join_lines (x # xs) = x @ ''\<newline>'' @ join_lines xs"

definition parse_pdf :: "readers \<Rightarrow> bytes \<Rightarrow> resume_facts" where
  "parse_pdf rd file =
     (case (case pdf_reader rd file of Inl e \<Rightarrow> Inl e | Inr pages \<Rightarrow> pdf_pages [] pages) of
        Inr text \<Rightarrow> extract_information text
      | Inl (PyException e) \<Rightarrow> extract_information (''PDF parsing error: '' @ e))"

definition parse_docx :: "readers \<Rightarrow> bytes \<Rightarrow> resume_facts" where
  "parse_docx rd file =
     (case docx_document rd file of
        Inr paragraphs \<Rightarrow> extract_information (join_lines paragraphs)
      | Inl (PyException e) \<Rightarrow> extract_information (''DOCX parsing error: '' @ e))"

definition parse_txt :: "readers \<Rightarrow> bytes \<Rightarrow> resume_facts" where
  "parse_txt rd file =
     (case read_decode rd file of
        Inr text \<Rightarrow> extract_information text
      | Inl (PyException e) \<Rightarrow> extract_information (''TXT parsing error: '' @ e))"

text \<open>
  \<open>ResumeParser.parse_resume\<close>. The argument either has a \<open>read\<close> attribute (an
  upload, with its \<open>name\<close> and its bytes) or is the text itself. A function that
  ends without \<open>return\<close> yields \<open>None\<close>.
\<close>

datatype resume_input = Upload string bytes | Text string

definition file_extension :: "string \<Rightarrow> string" where
  "file_extension name = lower (last (str_split_on CHR ''.'' name))"

definition parse_resume :: "readers \<Rightarrow> resume_input \<Rightarrow> resume_facts option" where
  "parse_resume rd file =
     (case file of
        Upload name content \<Rightarrow>
          (let file_extension = file_extension name
           in if file_extension = ''pdf'' then Some (parse_pdf rd content)
              else if file_extension = ''docx'' then Some (parse_docx rd content)
              else if file_extension = ''txt'' then Some (parse_txt rd content)
              else None)
      | Text text \<Rightarrow> Some (extract_information text))"


text \<open>
  A mention of years: the characters from \<open>i\<close> up to \<open>k\<close> are digits, at least
  one, and after them come whitespace characters, possibly none, and then \<open>year\<close>
  or \<open>yr\<close>.
\<close>

definition year_mention :: "string \<Rightarrow> nat \<Rightarrow> nat \<Rightarrow> bool" where
  "year_mention t i k =
     (i < k \<and> (\<forall>n \<in> {i ..< k}. n < length t \<and> is_digit (t ! n))
      \<and> (\<exists>m. k \<le> m \<and> (\<forall>n \<in> {k ..< m}. n < length t \<and> is_space (t ! n))
             \<and> (take 4 (drop m t) = ''year'' \<or> take 2 (drop m t) = ''yr'')))"

text \<open>The part of \<open>years_pattern\<close> after the group.\<close>

definition years_tail :: regex where
  "years_tail = Seq (Cls [Space] 0 None)
     (Alt (Seq (Lit ''year'') (Cls [One CHR ''s''] 0 (Some 1)))
          (Seq (Lit ''yr'') (Cls [One CHR ''s''] 0 (Some 1))))"

text \<open>
  The e-mail pattern in its standard form, whose last class is \<open>[A-Za-z]\<close>. The
  class of the program, \<open>[A-Z|a-z]\<close>, also holds the bar.
\<close>

definition standard_email_pattern :: regex where
  "standard_email_pattern = seqs
     [WordB,
      Cls [Range CHR ''A'' CHR ''Z'', Range CHR ''a'' CHR ''z'', Range CHR ''0'' CHR ''9'',
           One CHR ''.'', One CHR ''_'', One CHR ''%'', One CHR ''+'', One CHR ''-''] 1 None,
      Lit ''@'',
      Cls [Range CHR ''A'' CHR ''Z'', Range CHR ''a'' CHR ''z'', Range CHR ''0'' CHR ''9'',
           One CHR ''.'', One CHR ''-''] 1 None,
      Lit ''.'',
      Cls [Range CHR ''A'' CHR ''Z'', Range CHR ''a'' CHR ''z''] 2 None,
      WordB]"

text \<open>
  The first occurrence of a pattern in a text: no match starts further left, and no
  match from the same start ends further right.
\<close>

definition first_match :: "regex \<Rightarrow> string \<Rightarrow> nat \<Rightarrow> nat \<Rightarrow> bool" where
  "first_match r text i0 j0 =
     (i0 \<le> length text \<and> rmatch r text i0 j0
      \<and> (\<forall>i j. i \<le> length text \<and> rmatch r text i j \<longrightarrow> i0 < i \<or> (i0 = i \<and> j \<le> j0)))"

text \<open>A list of matcher states whose indices fall strictly.\<close>

definition descending :: "mstate list \<Rightarrow> bool" where
  "descending xs = sorted_wrt (\<lambda>a b. fst b < fst a) xs"

section \<open>\<open>json.loads\<close>\<close>

text \<open>
  The decoder of the standard library, with its default settings. A decoded string is
  a list of code points, since \<open>\u\<close> escapes reach beyond U+00FF. A float is kept
  as the text of its literal (two literals of one float are told apart, which only
  makes equalities of results harder to prove); \<open>NaN\<close>, \<open>Infinity\<close> and
  \<open>-Infinity\<close> are floats, as the decoder accepts them. An object is its list of
  members in the order of first insertion, a later member with the same key replacing
  the value of the earlier one, as in a \<open>dict\<close>. Failure of any kind is \<open>None\<close>:
  the only caller catches every exception alike.

  The text is cut into tokens, and the tokens are read by an automaton with a stack of
  the arrays and objects that are open. The decoder refuses an integer literal of more
  than 4300 digits (the default limit of \<open>int\<close>), and arrays and objects nested
  deeper than the interpreter's stack allows.
\<close>

datatype json =
    JNull
  | JBool bool
  | JInt int
  | JFloat string
  | JStr "nat list"
  | JArr "json list"
  | JObj "(nat list \<times> json) list"

text \<open>A string literal of the program as a list of code points.\<close>

definition py :: "string \<Rightarrow> nat list" where
  "py s = map code s"

datatype token = TLBrace | TRBrace | TLBracket | TRBracket | TColon | TComma | TValue json

definition hex_val :: "char \<Rightarrow> nat option" where
  "hex_val c =
     (if 48 \<le> code c \<and> code c \<le> 57 then Some (code c - 48)
      else if 97 \<le> code c \<and> code c \<le> 102 then Some (code c - 87)
      else if 65 \<le> code c \<and> code c \<le> 70 then Some (code c - 55)
      else None)"

fun hex4 :: "string \<Rightarrow> nat option" where
  "hex4 [a, b, c, d] =
     (case (hex_val a, hex_val b, hex_val c, hex_val d) of
        (Some x, Some y, Some z, Some w) \<Rightarrow> Some (((x * 16 + y) * 16 + z) * 16 + w)
      | _ \<Rightarrow> None)"
| "hex4 s = None"

definition escape :: "char \<Rightarrow> nat option" where
  "escape e =
     (if e = CHR 0x22 then Some 34 else if e = CHR 0x5C then Some 92
      else if e = CHR ''/'' then Some 47 else if e = CHR ''b'' then Some 8
      else if e = CHR ''f'' then Some 12 else if e = CHR ''n'' then Some 10
      else if e = CHR ''r'' then Some 13 else if e = CHR ''t'' then Some 9
      else None)"

text \<open>
  \<open>scanstring\<close>, from the character after the opening quote: the decoded string and
  the number of characters read, closing quote included. A high surrogate followed by
  a low one is one code point; control characters are refused (strict mode).
\<close>

fun scanstring :: "string \<Rightarrow> nat list \<Rightarrow> nat \<Rightarrow> (nat list \<times> nat) option" where
  "scanstring [] acc n = None"
| "scanstring (c # cs) acc n =
     (if c = CHR 0x22 then Some (acc, Suc n)
      else if c = CHR 0x5C then
        (case cs of
           [] \<Rightarrow> None
         | e # es \<Rightarrow>
             if e = CHR ''u'' then
               (case hex4 (take 4 es) of
                  None \<Rightarrow> None
                | Some u \<Rightarrow>
                    if 0xD800 \<le> u \<and> u \<le> 0xDBFF \<and> take 2 (drop 4 es) = [CHR 0x5C, CHR ''u''] then
                      (case hex4 (take 4 (drop 6 es)) of
                         None \<Rightarrow> None
                       | Some v \<Rightarrow>
                           if 0xDC00 \<le> v \<and> v \<le> 0xDFFF then
                             scanstring (drop 10 es)
                               (acc @ [0x10000 + (u - 0xD800) * 0x400 + (v - 0xDC00)]) (n + 12)
                           else scanstring (drop 4 es) (acc @ [u]) (n + 6))
                    else scanstring (drop 4 es) (acc @ [u]) (n + 6))
             else
               (case escape e of
                  None \<Rightarrow> None
                | Some v \<Rightarrow> scanstring es (acc @ [v]) (n + 2)))
      else if code c < 32 then None
      else scanstring cs (acc @ [code c]) (Suc n))"

text \<open>
  A number is the longest run of number characters, which must have the form
  \<open>-?(0|[1-9][0-9]*)(\.[0-9]+)?([eE][-+]?[0-9]+)?\<close>: whatever the decoder would
  leave of the run makes the whole text fail.
\<close>

definition number_char :: "char \<Rightarrow> bool" where
  "number_char c = (is_digit c \<or> c = CHR ''-'' \<or> c = CHR ''+'' \<or> c = CHR ''.''
                    \<or> c = CHR ''e'' \<or> c = CHR ''E'')"

definition int_part :: "string \<Rightarrow> bool" where
  "int_part ds = (ds \<noteq> [] \<and> list_all is_digit ds \<and> (hd ds = CHR ''0'' \<longrightarrow> length ds = 1))"

definition frac_ok :: "string \<Rightarrow> bool" where
  "frac_ok s = (s = [] \<or> (hd s = CHR ''.'' \<and> tl s \<noteq> [] \<and> list_all is_digit (tl s)))"

definition exp_ok :: "string \<Rightarrow> bool" where
  "exp_ok s =
     (s = [] \<or>
      ((hd s = CHR ''e'' \<or> hd s = CHR ''E'') \<and>
       (let ds = (case tl s of [] \<Rightarrow> [] | x # xs \<Rightarrow> if x = CHR ''-'' \<or> x = CHR ''+'' then xs else x # xs)
        in ds \<noteq> [] \<and> list_all is_digit ds)))"

definition int_value :: "string \<Rightarrow> int" where
  "int_value ds = foldl (\<lambda>a c. 10 * a + int (code c - 48)) 0 ds"

definition number_value :: "string \<Rightarrow> json option" where
  "number_value run =
     (let neg = (run \<noteq> [] \<and> hd run = CHR ''-'');
          body = (if neg then tl run else run);
          ip = takeWhile is_digit body;
          rest = dropWhile is_digit body;
          fp = takeWhile (\<lambda>c. c \<noteq> CHR ''e'' \<and> c \<noteq> CHR ''E'') rest;
          ep = dropWhile (\<lambda>c. c \<noteq> CHR ''e'' \<and> c \<noteq> CHR ''E'') rest
      in if int_part ip \<and> frac_ok fp \<and> exp_ok ep then
           (if fp = [] \<and> ep = [] then
              (if 4300 < length ip then None
               else Some (JInt (if neg then - int_value ip else int_value ip)))
            else Some (JFloat run))
         else None)"

definition json_space :: "char \<Rightarrow> bool" where
  "json_space c = (c = CHR '' '' \<or> c = CHR 0x09 \<or> c = CHR 0x0A \<or> c = CHR 0x0D)"

text \<open>
  The token that starts with \<open>c\<close>, and the number of characters of \<open>cs\<close> that
  belong to it. Whitespace yields no token.
\<close>

definition next_token :: "char \<Rightarrow> string \<Rightarrow> (token list \<times> nat) option" where
  "next_token c cs =
     (if json_space c then Some ([], 0)
      else if c = CHR ''{'' then Some ([TLBrace], 0)
      else if c = CHR ''}'' then Some ([TRBrace], 0)
      else if c = CHR ''['' then Some ([TLBracket], 0)
      else if c = CHR '']'' then Some ([TRBracket], 0)
      else if c = CHR '':'' then Some ([TColon], 0)
      else if c = CHR '','' then Some ([TComma], 0)
      else if c = CHR 0x22 then
        (case scanstring cs [] 0 of
           None \<Rightarrow> None
         | Some (s, n) \<Rightarrow> Some ([TValue (JStr s)], n))
      else if startswith (c # cs) ''null'' then Some ([TValue JNull], 3)
      else if startswith (c # cs) ''true'' then Some ([TValue (JBool True)], 3)
      else if startswith (c # cs) ''false'' then Some ([TValue (JBool False)], 4)
      else if startswith (c # cs) ''NaN'' then Some ([TValue (JFloat ''NaN'')], 2)
      else if startswith (c # cs) ''Infinity'' then Some ([TValue (JFloat ''Infinity'')], 7)
      else if startswith (c # cs) ''-Infinity'' then Some ([TValue (JFloat ''-Infinity'')], 8)
      else if number_char c then
        (let run = c # takeWhile number_char cs
         in case number_value run of
              None \<Rightarrow> None
            | Some v \<Rightarrow> Some ([TValue v], length run - 1))
      else None)"

fun lex :: "string \<Rightarrow> token list option" where
  "lex [] = Some []"
| "lex (c # cs) =
     (case next_token c cs of
        None \<Rightarrow> None
      | Some (ts, n) \<Rightarrow>
          (case lex (drop n cs) of
             None \<Rightarrow> None
           | Some rest \<Rightarrow> Some (ts @ rest)))"

text \<open>\<open>d[k] = v\<close> and \<open>dict(pairs)\<close> on lists of members.\<close>

fun dict_set :: "'k \<Rightarrow> 'v \<Rightarrow> ('k \<times> 'v) list \<Rightarrow> ('k \<times> 'v) list" where
  "dict_set k v [] = [(k, v)]"
| "dict_set k v ((k', v') # ps) = (if k' = k then (k, v) # ps else (k', v') # dict_set k v ps)"

definition dict :: "('k \<times> 'v) list \<Rightarrow> ('k \<times> 'v) list" where
  "dict pairs = foldl (\<lambda>d (k, v). dict_set k v d) [] pairs"

text \<open>
  The automaton: what may come next, and the open containers, innermost first. An
  open object holds the key that waits for its value.
\<close>

datatype frame = FArr "json list" | FObj "(nat list \<times> json) list" "nat list option"

datatype expect = EValue | EFirstElem | EFirstKey | EKey | EColon | EAfter | EDone json

definition put :: "json \<Rightarrow> frame list \<Rightarrow> (expect \<times> frame list) option" where
  "put v st =
     (case st of
        [] \<Rightarrow> Some (EDone v, [])
      | FArr xs # st' \<Rightarrow> Some (EAfter, FArr (xs @ [v]) # st')
      | FObj ps (Some k) # st' \<Rightarrow> Some (EAfter, FObj (ps @ [(k, v)]) None # st')
      | FObj ps None # st' \<Rightarrow> None)"

text \<open>
  A value starts. The decoder enters one level of recursion for every array and every
  object, empty ones too, and fails with \<open>RecursionError\<close> when the interpreter's
  stack is used up: \<open>limit\<close> is the number of levels that the stack still allows
  when \<open>json.loads\<close> is called.
\<close>

definition open_value :: "nat \<Rightarrow> frame list \<Rightarrow> token \<Rightarrow> (expect \<times> frame list) option" where
  "open_value limit st t =
     (case t of
        TValue v \<Rightarrow> put v st
      | TLBracket \<Rightarrow> if length st < limit then Some (EFirstElem, FArr [] # st) else None
      | TLBrace \<Rightarrow> if length st < limit then Some (EFirstKey, FObj [] None # st) else None
      | _ \<Rightarrow> None)"

definition close_array :: "frame list \<Rightarrow> (expect \<times> frame list) option" where
  "close_array st = (case st of FArr xs # st' \<Rightarrow> put (JArr xs) st' | _ \<Rightarrow> None)"

definition close_object :: "frame list \<Rightarrow> (expect \<times> frame list) option" where
  "close_object st = (case st of FObj ps None # st' \<Rightarrow> put (JObj (dict ps)) st' | _ \<Rightarrow> None)"

definition member_key :: "frame list \<Rightarrow> token \<Rightarrow> (expect \<times> frame list) option" where
  "member_key st t =
     (case t of
        TValue (JStr k) \<Rightarrow>
          (case st of FObj ps None # st' \<Rightarrow> Some (EColon, FObj ps (Some k) # st') | _ \<Rightarrow> None)
      | _ \<Rightarrow> None)"

definition step :: "nat \<Rightarrow> expect \<Rightarrow> frame list \<Rightarrow> token \<Rightarrow> (expect \<times> frame list) option" where
  "step limit e st t =
     (case e of
        EValue \<Rightarrow> open_value limit st t
      | EFirstElem \<Rightarrow> (case t of TRBracket \<Rightarrow> close_array st | _ \<Rightarrow> open_value limit st t)
      | EFirstKey \<Rightarrow> (case t of TRBrace \<Rightarrow> close_object st | _ \<Rightarrow> member_key st t)
      | EKey \<Rightarrow> member_key st t
      | EColon \<Rightarrow> (case t of TColon \<Rightarrow> Some (EValue, st) | _ \<Rightarrow> None)
      | EAfter \<Rightarrow>
          (case t of
             TComma \<Rightarrow>
               (case st of
                  FArr xs # st' \<Rightarrow> Some (EValue, st)
                | FObj ps None # st' \<Rightarrow> Some (EKey, st)
                | _ \<Rightarrow> None)
           | TRBracket \<Rightarrow> close_array st
           | TRBrace \<Rightarrow> close_object st
           | _ \<Rightarrow> None)
      | EDone v \<Rightarrow> None)"

fun run :: "nat \<Rightarrow> expect \<Rightarrow> frame list \<Rightarrow> token list \<Rightarrow> json option" where
  "run limit e st [] = (case e of EDone v \<Rightarrow> Some v | _ \<Rightarrow> None)"
| "run limit e st (t # ts) =
     (case step limit e st t of None \<Rightarrow> None | Some (e', st') \<Rightarrow> run limit e' st' ts)"

definition json_loads :: "nat \<Rightarrow> string \<Rightarrow> json option" where
  "json_loads limit s = (case lex s of None \<Rightarrow> None | Some ts \<Rightarrow> run limit EValue [] ts)"

section \<open>analyzer.py: model selection\<close>

text \<open>
  \<open>ChatGroq(model_name=..., api_key=...)\<close> is an object of the external client library;
  the model keeps the two constructor arguments. \<open>os.getenv\<close> yields \<open>None\<close> for
  an unset variable, so the key is optional.
\<close>

record ChatGroq =
  model_name :: string
  api_key :: "string option"

text \<open>
  The constructor. \<open>self.groq_api_key\<close> is the value of the environment variable
  \<open>GROQ_API_KEY\<close>, which is also where the client looks when it is given no key:
  without a key the constructor raises, with the message of the client library.
\<close>

definition groq_error :: py_exception where
  "groq_error = PyException (''The api_key client option must be set either by passing ''
     @ ''api_key to the client or by setting the GROQ_API_KEY environment variable'')"

definition chat_groq :: "string \<Rightarrow> string option \<Rightarrow> py_exception + ChatGroq" where
  "chat_groq model key =
     (case key of
        None \<Rightarrow> Inl groq_error
      | Some k \<Rightarrow> Inr \<lparr>model_name = model, api_key = Some k\<rparr>)"

text \<open>\<open>ResumeAnalyzer._get_llm\<close>; the first argument is \<open>self.groq_api_key\<close>.\<close>

definition get_llm :: "string option \<Rightarrow> string \<Rightarrow> py_exception + ChatGroq" where
  "get_llm groq_api_key choice =
     (if str_in ''8B'' choice \<or> str_in ''Fast'' choice then
        chat_groq ''llama-3.1-8b-instant'' groq_api_key
      else if str_in ''70B'' choice \<or> str_in ''Powerful'' choice then
        chat_groq ''llama-3.1-70b-versatile'' groq_api_key
      else
        chat_groq ''llama-3.1-8b-instant'' groq_api_key)"

text \<open>
  The completion backend is outside the program. A call either returns the completion
  text or raises. The world records every call made and every line printed;
  \<open>respond n m p\<close> is the outcome of call number \<open>n\<close> to model \<open>m\<close> with prompt \<open>p\<close>.
\<close>

type_synonym backend = "nat \<Rightarrow> string \<Rightarrow> string \<Rightarrow> py_exception + string"

record world =
  calls :: "(string \<times> string) list"
  stdout :: "string list"

definition invoke :: "backend \<Rightarrow> ChatGroq \<Rightarrow> string \<Rightarrow> world \<Rightarrow> (py_exception + string) \<times> world" where
  "invoke respond llm prompt w =
     (respond (length (calls w)) (model_name llm) prompt,
      w\<lparr>calls := calls w @ [(model_name llm, prompt)]\<rparr>)"

definition test_prompt :: string where
  "test_prompt = ''Say 'test'' @ [CHR 0x27]"

text \<open>
  \<open>ResumeAnalyzer._get_safe_llm\<close>. The body of the \<open>try\<close> constructs the handle
  and probes it; either step may raise. The handler prints and constructs the
  lightweight handle, outside any \<open>try\<close>: what this construction raises is raised
  by the function.
\<close>

definition probe :: "backend \<Rightarrow> string option \<Rightarrow> string \<Rightarrow> world \<Rightarrow> (py_exception + ChatGroq) \<times> world" where
  "probe respond groq_api_key choice w =
     (case get_llm groq_api_key choice of
        Inl e \<Rightarrow> (Inl e, w)
      | Inr llm \<Rightarrow>
          (let (r, w1) = invoke respond llm test_prompt w
           in case r of Inl e \<Rightarrow> (Inl e, w1) | Inr _ \<Rightarrow> (Inr llm, w1)))"

definition get_safe_llm :: "backend \<Rightarrow> string option \<Rightarrow> string \<Rightarrow> world \<Rightarrow> (py_exception + ChatGroq) \<times> world" where
  "get_safe_llm respond groq_api_key choice w =
     (let (r, w1) = probe respond groq_api_key choice w
      in case r of
           Inr llm \<Rightarrow> (Inr llm, w1)
         | Inl (PyException e) \<Rightarrow>
             (chat_groq ''llama-3.1-8b-instant'' groq_api_key,
              w1\<lparr>stdout := stdout w1 @
                [''Model unavailable, falling back to llama-3.1-8b-instant. Error: '' @ e]\<rparr>))"

text \<open>The two handles, the markers of a label, and the handle that the policy selects.\<close>

definition lightweight :: "string \<Rightarrow> ChatGroq" where
  "lightweight key = \<lparr>model_name = ''llama-3.1-8b-instant'', api_key = Some key\<rparr>"

definition heavyweight :: "string \<Rightarrow> ChatGroq" where
  "heavyweight key = \<lparr>model_name = ''llama-3.1-70b-versatile'', api_key = Some key\<rparr>"

definition fast_marker :: "string \<Rightarrow> bool" where
  "fast_marker choice = (str_in ''8B'' choice \<or> str_in ''Fast'' choice)"

definition powerful_marker :: "string \<Rightarrow> bool" where
  "powerful_marker choice = (str_in ''70B'' choice \<or> str_in ''Powerful'' choice)"

definition resolved :: "string \<Rightarrow> string \<Rightarrow> ChatGroq" where
  "resolved key choice =
     (if fast_marker choice then lightweight key
      else if powerful_marker choice then heavyweight key
      else lightweight key)"

section \<open>analyzer.py: result coercion and job matching\<close>

text \<open>
  \<open>ResumeAnalyzer._safe_json_parse\<close>. The bare \<open>except\<close> turns every failure of
  the decoder into the default. The first argument is the depth of nesting that the
  interpreter's stack allows the decoder in this call.
\<close>

definition safe_json_parse :: "nat \<Rightarrow> string \<Rightarrow> json \<Rightarrow> json" where
  "safe_json_parse limit text dflt =
     (let start = str_find CHR ''{'' text;
          end = str_rfind CHR ''}'' text + 1
      in if start \<ge> 0 \<and> end > start then
           (case json_loads limit (slice text (nat start) (nat end)) of
              Some v \<Rightarrow> v
            | None \<Rightarrow> dflt)
         else dflt)"

text \<open>
  The prompt of \<open>job_match_analysis\<close>: the template with both placeholders filled
  and \<open>{{\<close>, \<open>}}\<close> turned into braces.
\<close>

definition job_match_prompt :: "string \<Rightarrow> string \<Rightarrow> string" where
  \<open>job_match_prompt resume_text job_description =
     ''\<newline>''
      @ ''        Analyze the match between resume and job description. Return ONLY valid JSON:\<newline>''
      @ ''        \<newline>''
      @ ''        RESUME: ''
      @ resume_text @
     ''\<newline>''
      @ ''        JOB: ''
      @ job_description @
     ''\<newline>''
      @ ''        \<newline>''
      @ ''        JSON structure:\<newline>''
      @ ''        {\<newline>''
      @ ''            "match_score": 85,\<newline>''
      @ ''            "category_scores": {\<newline>''
      @ ''                "skills": 90,\<newline>''
      @ ''                "experience": 80,\<newline>''
      @ ''                "education": 85,\<newline>''
      @ ''                "culture_fit": 75\<newline>''
      @ ''            },\<newline>''
      @ ''            "strengths": ["Strong technical skills", "Relevant experience"],\<newline>''
      @ ''            "improvements": ["Gain leadership experience", "Learn specific technology"]\<newline>''
      @ ''        }\<newline>''
      @ ''        ''\<close>

text \<open>The default of \<open>job_match_analysis\<close>.\<close>

definition job_match_default :: json where
  "job_match_default =
     JObj [(py ''match_score'', JInt 70),
           (py ''category_scores'',
              JObj [(py ''skills'', JInt 75), (py ''experience'', JInt 65),
                    (py ''education'', JInt 70), (py ''culture_fit'', JInt 60)]),
           (py ''strengths'',
              JArr [JStr (py ''Good foundational skills''),
                    JStr (py ''Relevant educational background'')]),
           (py ''improvements'',
              JArr [JStr (py ''Gain more industry experience''),
                    JStr (py ''Develop missing technical skills'')])]"

text \<open>
  \<open>ResumeAnalyzer.job_match_analysis\<close>. What \<open>_get_safe_llm\<close> or the completion
  call raises is not caught: it is the result.
\<close>

definition job_match_analysis ::
  "nat \<Rightarrow> backend \<Rightarrow> string option \<Rightarrow> string \<Rightarrow> string \<Rightarrow> string \<Rightarrow> world
     \<Rightarrow> (py_exception + json) \<times> world" where
  "job_match_analysis limit respond groq_api_key resume_text job_description llm_choice w =
     (case get_safe_llm respond groq_api_key llm_choice w of
        (Inl e, w1) \<Rightarrow> (Inl e, w1)
      | (Inr llm, w1) \<Rightarrow>
          (let (result, w2) = invoke respond llm (job_match_prompt resume_text job_description) w1
           in case result of
                Inl e \<Rightarrow> (Inl e, w2)
              | Inr content \<Rightarrow> (Inr (safe_json_parse limit content job_match_default), w2)))"

text \<open>The text has a \<open>{\<close> somewhere before a \<open>}\<close>.\<close>

definition brace_pair :: "string \<Rightarrow> bool" where
  "brace_pair text =
     (\<exists>i j. i < j \<and> j < length text \<and> text ! i = CHR ''{'' \<and> text ! j = CHR ''}'')"

text \<open>
  The piece that \<open>_safe_json_parse\<close> hands to the decoder, if it hands one: from the
  first \<open>{\<close> to the last \<open>}\<close>.
\<close>

definition extracted :: "string \<Rightarrow> string option" where
  "extracted text =
     (if str_find CHR ''{'' text \<ge> 0 \<and> str_rfind CHR ''}'' text + 1 > str_find CHR ''{'' text
      then Some (slice text (nat (str_find CHR ''{'' text)) (nat (str_rfind CHR ''}'' text + 1)))
      else None)"

text \<open>
  What \<open>job_match_analysis\<close> has when the completion call is over: the completion,
  or what was raised up to there.
\<close>

definition completion :: "backend \<Rightarrow> string option \<Rightarrow> string \<Rightarrow> string \<Rightarrow> string \<Rightarrow> world \<Rightarrow> py_exception + string" where
  "completion respond k resume_text job_description llm_choice w =
     (case get_safe_llm respond k llm_choice w of
        (Inl e, w1) \<Rightarrow> Inl e
      | (Inr llm, w1) \<Rightarrow>
          fst (invoke respond llm (job_match_prompt resume_text job_description) w1))"

section \<open>Properties of the fact extractor\<close>

text \<open>Only the first item of a \<open>findall\<close> list is read, and whether there is one.\<close>

lemma findall_unfold:
  "findall r text =
     (case search_from r text 0 False of
        None \<Rightarrow> []
      | Some m \<Rightarrow> match_item r text m
          # map (match_item r text) (findall_from r text (fst (snd m)) (fst (snd m) = fst m)))"
  by (simp add: findall_def findall_from.simps [of r "text" 0 False]
      split: option.splits prod.splits)

lemma search_keyword_empty: "search (keyword_pattern k) [] = False"
  by (simp add: search_def search_from_def keyword_pattern_def at_boundary_def word_at_def)

text \<open>
  Claim C8. On the empty text every detected fact is absent: the e-mail and the phone
  are \<open>Not found\<close>, no skill and no education keyword is listed, the years of
  experience are \<open>Not specified\<close>, and both counts are 0.
\<close>

theorem extract_information_empty:
  "extract_information [] =
     \<lparr>email = ''Not found'', phone = ''Not found'', skills = [], education = [],
      experience_years = ''Not specified'', raw_text = [], word_count = 0,
      character_count = 0\<rparr>"
  by (simp add: extract_information_def findall_unfold search_from_def search_keyword_empty
      lower_def email_pattern_def phone_pattern_def years_pattern_def at_boundary_def
      word_at_def str_split_def in_cls_def)

subsection \<open>The matcher against the reading of a pattern\<close>

lemma takeWhile_length_iff:
  "n \<le> length (takeWhile P xs) \<longleftrightarrow> (\<forall>k<n. k < length xs \<and> P (xs ! k))"
proof (induction xs arbitrary: n)
  case Nil
  then show ?case by auto
next
  case (Cons x xs)
  show ?case
  proof (cases n)
    case 0
    then show ?thesis by simp
  next
    case (Suc m)
    show ?thesis
    proof (cases "P x")
      case True
      have "(\<forall>k<Suc m. k < length (x # xs) \<and> P ((x # xs) ! k)) \<longleftrightarrow> (\<forall>k<m. k < length xs \<and> P (xs ! k))"
        using True by (auto simp: less_Suc_eq_0_disj)
      with Cons.IH [of m] True Suc show ?thesis by simp
    next
      case False
      then show ?thesis using Suc by auto
    qed
  qed
qed

lemma run_iff:
  "n \<le> length (takeWhile P (drop i text)) \<longleftrightarrow> (\<forall>k \<in> {i ..< i + n}. k < length text \<and> P (text ! k))"
proof -
  have "(\<forall>k<n. k < length (drop i text) \<and> P (drop i text ! k)) \<longleftrightarrow> (\<forall>k \<in> {i ..< i + n}. k < length text \<and> P (text ! k))"
  proof
    assume a: "\<forall>k<n. k < length (drop i text) \<and> P (drop i text ! k)"
    show "\<forall>k \<in> {i ..< i + n}. k < length text \<and> P (text ! k)"
    proof
      fix k assume "k \<in> {i ..< i + n}"
      then have "k - i < n" "i \<le> k" by auto
      with a have "k - i < length (drop i text)" "P (drop i text ! (k - i))" by auto
      with \<open>i \<le> k\<close> show "k < length text \<and> P (text ! k)" by (auto simp: less_diff_conv2)
    qed
  next
    assume a: "\<forall>k \<in> {i ..< i + n}. k < length text \<and> P (text ! k)"
    show "\<forall>k<n. k < length (drop i text) \<and> P (drop i text ! k)"
    proof (intro allI impI)
      fix k assume "k < n"
      then have "i + k \<in> {i ..< i + n}" by simp
      with a have "i + k < length text" "P (text ! (i + k))" by auto
      then show "k < length (drop i text) \<and> P (drop i text ! k)" by auto
    qed
  qed
  then show ?thesis by (simp add: takeWhile_length_iff)
qed

lemma cls_candidates:
  "(j, g') \<in> set (map (\<lambda>n. (i + n, g)) (rev [lo ..< Suc mx])) \<longleftrightarrow>
     g' = g \<and> i \<le> j \<and> lo \<le> j - i \<and> j - i \<le> mx"
proof
  assume "(j, g') \<in> set (map (\<lambda>n. (i + n, g)) (rev [lo ..< Suc mx]))"
  then obtain n where "lo \<le> n" "n \<le> mx" "j = i + n" "g' = g"
    by (auto simp del: upt_Suc)
  then show "g' = g \<and> i \<le> j \<and> lo \<le> j - i \<and> j - i \<le> mx" by simp
next
  assume a: "g' = g \<and> i \<le> j \<and> lo \<le> j - i \<and> j - i \<le> mx"
  then have "j - i \<in> set (rev [lo ..< Suc mx])" "(j, g') = (i + (j - i), g)"
    by (simp_all del: upt_Suc)
  then show "(j, g') \<in> set (map (\<lambda>n. (i + n, g)) (rev [lo ..< Suc mx]))"
    unfolding set_map by (rule image_eqI [rotated])
qed

lemma ms_Cls:
  "(j, g') \<in> set (ms (Cls items lo hi) text (i, g)) \<longleftrightarrow>
     g' = g \<and> i \<le> j \<and> lo \<le> j - i \<and> j - i \<le> length (takeWhile (in_cls items) (drop i text))
     \<and> (case hi of None \<Rightarrow> True | Some h \<Rightarrow> j - i \<le> h)"
  by (cases hi) (auto simp add: Let_def cls_candidates simp del: upt_Suc set_map set_rev map_map)

lemma ms_Grp:
  "(j, g') \<in> set (ms (Grp a) text (i, g)) \<longleftrightarrow>
     g' = Some (i, j) \<and> (\<exists>g''. (j, g'') \<in> set (ms a text (i, g)))"
  by (force simp: image_iff)

lemma ms_rmatch: "(\<exists>g'. (j, g') \<in> set (ms r text (i, g))) \<longleftrightarrow> rmatch r text i j"
proof (induction r arbitrary: i j g)
  case (Lit l)
  show ?case by auto
next
  case (Cls items lo hi)
  let ?run = "length (takeWhile (in_cls items) (drop i text))"
  have r: "\<And>n. n \<le> ?run \<longleftrightarrow> (\<forall>k \<in> {i ..< i + n}. k < length text \<and> in_cls items (text ! k))"
    by (rule run_iff)
  show ?case
    using r [of "j - i"] by (cases hi) (auto simp add: ms_Cls simp del: ms.simps)
next
  case WordB
  show ?case by auto
next
  case (Seq a b)
  show ?case
  proof
    assume "\<exists>g'. (j, g') \<in> set (ms (Seq a b) text (i, g))"
    then obtain g' k gk where k: "(k, gk) \<in> set (ms a text (i, g))" "(j, g') \<in> set (ms b text (k, gk))"
      by auto
    then have "i \<le> k" "k \<le> j" by (auto dest: ms_mono)
    moreover from k Seq.IH have "rmatch a text i k" "rmatch b text k j" by blast+
    ultimately show "rmatch (Seq a b) text i j" by auto
  next
    assume "rmatch (Seq a b) text i j"
    then obtain k where "rmatch a text i k" "rmatch b text k j" by auto
    with Seq.IH [symmetric] obtain gk where gk: "(k, gk) \<in> set (ms a text (i, g))" by blast
    from \<open>rmatch b text k j\<close> Seq.IH(2) [symmetric, of k j gk] obtain g' where "(j, g') \<in> set (ms b text (k, gk))" by blast
    with gk show "\<exists>g'. (j, g') \<in> set (ms (Seq a b) text (i, g))" by auto
  qed
next
  case (Alt a b)
  from Alt.IH [of j i g] show ?case by auto
next
  case (Grp a)
  from Grp.IH [of j i g] show ?case by (simp add: ms_Grp del: ms.simps)
qed

lemma scan_None_iff: "scan r text None is = None \<longleftrightarrow> (\<forall>i \<in> set is. ms r text (i, None) = [])"
  by (induction "is") (auto split: list.splits)

lemma scan_Some:
  "scan r text None is = Some (i, j, g) \<Longrightarrow>
     \<exists>pre post rest. is = pre @ i # post \<and> (\<forall>i' \<in> set pre. ms r text (i', None) = [])
       \<and> ms r text (i, None) = (j, g) # rest"
proof (induction "is")
  case Nil
  then show ?case by simp
next
  case (Cons a "is")
  show ?case
  proof (cases "ms r text (a, None)")
    case Nil
    with Cons.prems have "scan r text None is = Some (i, j, g)" by simp
    from Cons.IH [OF this] obtain pre post rest where
      "is = pre @ i # post" "\<forall>i' \<in> set pre. ms r text (i', None) = []" "ms r text (i, None) = (j, g) # rest"
      by blast
    with Nil have "a # is = (a # pre) @ i # post \<and> (\<forall>i' \<in> set (a # pre). ms r text (i', None) = []) \<and> ms r text (i, None) = (j, g) # rest"
      by simp
    then show ?thesis by blast
  next
    case (Cons p ps)
    with Cons.prems have "a = i" "p = (j, g)" by (auto split: prod.splits)
    with Cons have "a # is = [] @ i # is \<and> (\<forall>i' \<in> set []. ms r text (i', None) = []) \<and> ms r text (i, None) = (j, g) # ps"
      by simp
    then show ?thesis by blast
  qed
qed

lemma search_from_None_iff:
  "search_from r text 0 False = None \<longleftrightarrow> (\<forall>i \<le> length text. \<forall>j. \<not> rmatch r text i j)"
proof -
  have "search_from r text 0 False = None \<longleftrightarrow> (\<forall>i \<in> set [0 ..< Suc (length text)]. ms r text (i, None) = [])"
    by (simp add: search_from_def scan_None_iff del: upt_Suc)
  also have "\<dots> \<longleftrightarrow> (\<forall>i \<le> length text. ms r text (i, None) = [])"
    by (auto simp del: upt_Suc)
  also have "\<dots> \<longleftrightarrow> (\<forall>i \<le> length text. \<forall>j. \<not> rmatch r text i j)"
  proof -
    have "\<And>i. ms r text (i, None) = [] \<longleftrightarrow> (\<forall>j. \<not> rmatch r text i j)"
    proof -
      fix i
      have "ms r text (i, None) = [] \<longleftrightarrow> (\<forall>j g'. (j, g') \<notin> set (ms r text (i, None)))"
        by (cases "ms r text (i, None)") auto
      also have "\<dots> \<longleftrightarrow> (\<forall>j. \<not> rmatch r text i j)"
        using ms_rmatch [of _ r "text" i None] by blast
      finally show "ms r text (i, None) = [] \<longleftrightarrow> (\<forall>j. \<not> rmatch r text i j)" .
    qed
    then show ?thesis by simp
  qed
  finally show ?thesis .
qed

lemma search_from_Some:
  assumes "search_from r text 0 False = Some (i, j, g)"
  shows "i \<le> length text" and "rmatch r text i j" and "\<forall>i' < i. \<forall>j'. \<not> rmatch r text i' j'"
    and "\<exists>rest. ms r text (i, None) = (j, g) # rest"
proof -
  from assms have "scan r text None [0 ..< Suc (length text)] = Some (i, j, g)"
    by (simp add: search_from_def)
  from scan_Some [OF this] obtain pre post rest where
    d: "[0 ..< Suc (length text)] = pre @ i # post" and
    n: "\<forall>i' \<in> set pre. ms r text (i', None) = []" and
    m: "ms r text (i, None) = (j, g) # rest"
    by blast
  from d have "i \<in> set [0 ..< Suc (length text)]" by (metis in_set_conv_decomp)
  then show "i \<le> length text" by (simp del: upt_Suc)
  from m have "(j, g) \<in> set (ms r text (i, None))" by simp
  with ms_rmatch show "rmatch r text i j" by blast
  from m show "\<exists>rest. ms r text (i, None) = (j, g) # rest" by blast
  have s: "sorted_wrt (<) (pre @ i # post)"
    using d sorted_wrt_upt [of 0 "Suc (length text)"] by metis
  show "\<forall>i' < i. \<forall>j'. \<not> rmatch r text i' j'"
  proof (intro allI impI)
    fix i' j' assume "i' < i"
    with \<open>i \<le> length text\<close> have "i' \<in> set [0 ..< Suc (length text)]" by (simp del: upt_Suc)
    with d have "i' \<in> set (pre @ i # post)" by (simp del: upt_Suc)
    then have "i' \<in> set pre \<or> i' = i \<or> i' \<in> set post" by auto
    moreover from s have "\<forall>x \<in> set post. i < x" by (simp add: sorted_wrt_append)
    ultimately have "i' \<in> set pre" using \<open>i' < i\<close> by auto
    with n have "ms r text (i', None) = []" by blast
    then have "\<forall>g'. (j', g') \<notin> set (ms r text (i', None))" by simp
    with ms_rmatch [of j' r "text" i' None] show "\<not> rmatch r text i' j'" by blast
  qed
qed

lemma code_char_of: "n < 256 \<Longrightarrow> code (char_of n) = n"
  by (simp add: code_def)

lemma rmatch_keyword:
  "rmatch (keyword_pattern k) t i j \<longleftrightarrow>
     j = i + length k \<and> at_boundary t i \<and> take (length k) (drop i t) = k \<and> at_boundary t j"
  by (auto simp: keyword_pattern_def)

lemma search_keyword_iff:
  "search (keyword_pattern k) t \<longleftrightarrow>
     (\<exists>i \<le> length t. at_boundary t i \<and> take (length k) (drop i t) = k \<and> at_boundary t (i + length k))"
  by (auto simp: search_def search_from_None_iff rmatch_keyword)

lemma take_drop_decomp:
  "i \<le> length t \<and> take (length k) (drop i t) = k \<longleftrightarrow> (\<exists>pre post. t = pre @ k @ post \<and> length pre = i)"
proof
  assume a: "i \<le> length t \<and> take (length k) (drop i t) = k"
  then have "t = take i t @ k @ drop (length k) (drop i t)" 
    by (metis append_take_drop_id)
  moreover from a have "length (take i t) = i" by simp
  ultimately show "\<exists>pre post. t = pre @ k @ post \<and> length pre = i" by blast
next
  assume "\<exists>pre post. t = pre @ k @ post \<and> length pre = i"
  then show "i \<le> length t \<and> take (length k) (drop i t) = k" by auto
qed








lemma lower_char_backslash: "lower_char c = CHR 0x5C \<Longrightarrow> c = CHR 0x5C"
proof (cases "(65 \<le> code c \<and> code c \<le> 90) \<or> (192 \<le> code c \<and> code c \<le> 214) \<or> (216 \<le> code c \<and> code c \<le> 222)")
  case True
  assume a: "lower_char c = CHR 0x5C"
  from True have "code c + 32 < 256" by auto
  then have "code (lower_char c) = code c + 32"
    using True by (simp add: lower_char_def code_char_of)
  with a have "code c + 32 = 92" by (simp add: code_def)
  with True have False by presburger
  then show ?thesis ..
next
  case False
  assume a: "lower_char c = CHR 0x5C"
  from False have "lower_char c = c" unfolding lower_char_def by presburger
  with a show ?thesis by simp
qed

lemma search_keyword_literal:
  "search (keyword_pattern k) t \<Longrightarrow> \<exists>pre post. t = pre @ k @ post"
proof -
  assume "search (keyword_pattern k) t"
  then obtain i where "i \<le> length t \<and> take (length k) (drop i t) = k"
    unfolding search_keyword_iff by blast
  then show ?thesis unfolding take_drop_decomp by blast
qed

lemma education_set:
  "set (education (extract_information text)) = {k \<in> set education_keywords. search (keyword_pattern k) (lower text)}"
  by (auto simp add: extract_information_def Let_def)

text \<open>
  Claim C10. For a text without a backslash, the education signals are among
  \<open>bachelor\<close>, \<open>master\<close>, \<open>phd\<close>, \<open>degree\<close>, \<open>university\<close>, \<open>college\<close>,
  each at most once: a keyword is found only where the lower-cased text holds it letter
  by letter (\<open>search_keyword_literal\<close>), the entries \<open>b\.\<close> and \<open>m\.\<close> hold a
  backslash, and the second \<open>phd\<close> disappears in the set.
\<close>

theorem education_without_backslash:
  assumes "CHR 0x5C \<notin> set text"
  shows "set (education (extract_information text))
           \<subseteq> {''bachelor'', ''master'', ''phd'', ''degree'', ''university'', ''college''}
         \<and> distinct (education (extract_information text))"
proof -
  have n: "\<And>k. CHR 0x5C \<in> set k \<Longrightarrow> \<not> search (keyword_pattern k) (lower text)"
  proof
    fix k assume k: "CHR 0x5C \<in> set k" and "search (keyword_pattern k) (lower text)"
    then obtain pre post where "lower text = pre @ k @ post"
      using search_keyword_literal by blast
    with k have "CHR 0x5C \<in> set (lower text)" by simp
    then obtain c where "c \<in> set text" "lower_char c = CHR 0x5C" by (auto simp: lower_def)
    with assms show False using lower_char_backslash by blast
  qed
  have "\<not> search (keyword_pattern [CHR ''b'', CHR 0x5C, CHR ''.'']) (lower text)"
       "\<not> search (keyword_pattern [CHR ''m'', CHR 0x5C, CHR ''.'']) (lower text)"
    by (rule n, simp)+
  then have "set (education (extract_information text))
           \<subseteq> {''bachelor'', ''master'', ''phd'', ''degree'', ''university'', ''college''}"
    unfolding education_set by (auto simp: education_keywords_def)
  moreover have "distinct (education (extract_information text))"
    by (simp add: extract_information_def Let_def)
  ultimately show ?thesis ..
qed

theorem education_without_backslash_witness:
  "CHR 0x5C \<notin> set ''PhD, m.sc''
   \<and> set (education (extract_information ''PhD, m.sc''))
       \<subseteq> {''bachelor'', ''master'', ''phd'', ''degree'', ''university'', ''college''}
   \<and> distinct (education (extract_information ''PhD, m.sc''))"
  using education_without_backslash [of "''PhD, m.sc''"] by simp

subsection \<open>The first e-mail address\<close>

lemma rmatch_bound: "rmatch r t i j \<Longrightarrow> i \<le> length t \<Longrightarrow> i \<le> j \<and> j \<le> length t"
proof (induction r arbitrary: i j)
  case (Lit l)
  then have "length (take (length l) (drop i t)) = length l" by simp
  then have "length l \<le> length t - i" by simp
  with Lit show ?case by simp
next
  case (Cls items lo hi)
  show ?case
  proof (cases "i < j")
    case True
    then have "j - 1 \<in> {i ..< j}" by simp
    with Cls.prems(1) have "j - 1 < length t" by auto
    with True show ?thesis by simp
  next
    case False
    with Cls.prems show ?thesis by simp
  qed
next
  case WordB
  then show ?case by simp
next
  case (Seq a b)
  from Seq.prems(1) obtain k where k: "rmatch a t i k" "rmatch b t k j" by auto
  from Seq.IH(1) [OF k(1) Seq.prems(2)] have "i \<le> k" "k \<le> length t" by simp_all
  with Seq.IH(2) [OF k(2)] show ?case by simp
next
  case (Alt a b)
  then show ?case by auto
next
  case (Grp a)
  then show ?case by simp
qed

lemma email_eq:
  "email (extract_information text) =
     (case search_from email_pattern text 0 False of
        None \<Rightarrow> ''Not found'' | Some (i, j, g) \<Rightarrow> slice text i j)"
  by (simp add: extract_information_def Let_def findall_unfold match_item_def email_pattern_def
      split: option.splits)

lemma descending_Nil: "descending []"
  by (simp add: descending_def)

lemma descending_filter: "descending xs \<Longrightarrow> descending (filter P xs)"
  unfolding descending_def by (rule sorted_wrt_filter)

lemma descending_concat:
  assumes "descending xs"
    and "\<And>x. x \<in> set xs \<Longrightarrow> descending (f x)"
    and "\<And>x y a b. x \<in> set xs \<Longrightarrow> y \<in> set xs \<Longrightarrow> fst y < fst x \<Longrightarrow> a \<in> set (f x) \<Longrightarrow> b \<in> set (f y)
           \<Longrightarrow> fst b < fst a"
  shows "descending (concat (map f xs))"
  using assms
proof (induction xs)
  case Nil
  then show ?case by (simp add: descending_def)
next
  case (Cons x xs)
  from Cons.prems(1) have d: "descending xs" and lt: "\<forall>y \<in> set xs. fst y < fst x"
    by (simp_all add: descending_def)
  have "descending (concat (map f xs))"
  proof (rule Cons.IH [OF d])
    fix y assume "y \<in> set xs"
    then show "descending (f y)" using Cons.prems(2) by simp
  next
    fix u y a b
    assume "u \<in> set xs" "y \<in> set xs" "fst y < fst u" "a \<in> set (f u)" "b \<in> set (f y)"
    then show "fst b < fst a" using Cons.prems(3) [of u y a b] by simp
  qed
  moreover have "descending (f x)" using Cons.prems(2) by simp
  moreover have "\<forall>a \<in> set (f x). \<forall>b \<in> set (concat (map f xs)). fst b < fst a"
  proof (intro ballI)
    fix a b assume a: "a \<in> set (f x)" and "b \<in> set (concat (map f xs))"
    then obtain y where y: "y \<in> set xs" "b \<in> set (f y)" by auto
    with lt have "fst y < fst x" by simp
    with Cons.prems(3) [of x y a b] a y show "fst b < fst a" by simp
  qed
  ultimately show ?case
    by (simp add: descending_def sorted_wrt_append)
qed

lemma descending_Cls: "descending (ms (Cls items lo hi) text (i, g))"
proof -
  have "sorted_wrt (\<lambda>a b. b < a) (rev [lo ..< Suc n])" for n
    unfolding sorted_wrt_rev by (rule sorted_wrt_upt)
  then have "descending (map (\<lambda>n. (i + n, g)) (rev [lo ..< Suc n]))" for n
    unfolding descending_def sorted_wrt_map by simp
  then show ?thesis
    by (simp add: Let_def descending_Nil del: upt_Suc)
qed

lemma ms_then_WordB:
  "ms (Seq r WordB) text st = filter (\<lambda>s. at_boundary text (fst s)) (ms r text st)"
proof -
  have "concat (map (ms WordB text) xs) = filter (\<lambda>s. at_boundary text (fst s)) xs" for xs
    by (induction xs) auto
  then show ?thesis by simp
qed

lemma ms_Lit_then:
  "ms (Seq (Lit l) b) text (i, g) =
     (if take (length l) (drop i text) = l then ms b text (i + length l, g) else [])"
  by simp

lemma ms_WordB_then:
  "ms (Seq WordB b) text (i, g) = (if at_boundary text i then ms b text (i, g) else [])"
  by simp

lemma ms_Cls_chars:
  "(p, g') \<in> set (ms (Cls items lo hi) text (i, g)) \<Longrightarrow>
     i \<le> p \<and> lo \<le> p - i \<and> (\<forall>k \<in> {i ..< p}. k < length text \<and> in_cls items (text ! k))"
  using run_iff [of "p - i" "in_cls items" i "text"] by (auto simp add: ms_Cls simp del: ms.simps)

lemma lit_char:
  "take (Suc 0) (drop d text) = [c] \<Longrightarrow> d < length text \<and> text ! d = c"
proof -
  assume a: "take (Suc 0) (drop d text) = [c]"
  then have "length (take (Suc 0) (drop d text)) = 1" by simp
  then have l: "d < length text" by (simp split: if_splits) 
  from a have "take (Suc 0) (drop d text) ! 0 = c" by simp
  with l show ?thesis by simp
qed

lemma descending_Lit_then:
  "(\<And>st. descending (ms b text st)) \<Longrightarrow> descending (ms (Seq (Lit l) b) text st)"
  by (cases st) (simp add: descending_Nil)

lemma descending_WordB_then:
  "(\<And>st. descending (ms b text st)) \<Longrightarrow> descending (ms (Seq WordB b) text st)"
  by (cases st) (simp add: descending_Nil)

lemma descending_then_WordB: "descending (ms (Seq (Cls items lo hi) WordB) text st)"
  unfolding ms_then_WordB by (cases st) (simp add: descending_filter descending_Cls del: ms.simps)

lemma ms_dot_tld:
  assumes "(e, g') \<in> set (ms (Seq (Lit [c]) (Seq (Cls items lo hi) WordB)) text (d, g))"
  shows "d < length text \<and> text ! d = c \<and> d < e \<and> (\<forall>k \<in> {Suc d ..< e}. in_cls items (text ! k))"
proof -
  from assms have l: "take (Suc 0) (drop d text) = [c]"
    and m: "(e, g') \<in> set (ms (Seq (Cls items lo hi) WordB) text (Suc d, g))"
    by (simp_all add: ms_Lit_then del: ms.simps split: if_splits)
  from m have "(e, g') \<in> set (ms (Cls items lo hi) text (Suc d, g))"
    unfolding ms_then_WordB by simp
  from ms_Cls_chars [OF this] have "Suc d \<le> e" "\<forall>k \<in> {Suc d ..< e}. in_cls items (text ! k)"
    by simp_all
  with lit_char [OF l] show ?thesis by simp
qed

lemma descending_domain:
  assumes "\<not> in_cls items c"
  shows "descending (ms (Seq (Cls ditems dlo dhi) (Seq (Lit [c]) (Seq (Cls items lo hi) WordB))) text st)"
proof -
  let ?f = "ms (Seq (Lit [c]) (Seq (Cls items lo hi) WordB)) text"
  obtain i g where st: "st = (i, g)" by (cases st)
  have "descending (concat (map ?f (ms (Cls ditems dlo dhi) text (i, g))))"
  proof (rule descending_concat)
    show "descending (ms (Cls ditems dlo dhi) text (i, g))" by (rule descending_Cls)
  next
    fix x
    show "descending (?f x)"
      by (rule descending_Lit_then) (rule descending_then_WordB)
  next
    fix x y a b
    assume lt: "fst y < fst x" and a: "a \<in> set (?f x)" and b: "b \<in> set (?f y)"
    obtain d1 g1 where x: "x = (d1, g1)" by (cases x)
    obtain d2 g2 where y: "y = (d2, g2)" by (cases y)
    obtain e1 h1 where a': "a = (e1, h1)" by (cases a)
    obtain e2 h2 where b': "b = (e2, h2)" by (cases b)
    from a x a' have 1: "text ! d1 = c" "d1 < e1" using ms_dot_tld by blast+
    from b y b' have 2: "\<forall>k \<in> {Suc d2 ..< e2}. in_cls items (text ! k)" using ms_dot_tld by blast
    from lt x y have "d2 < d1" by simp
    have "e2 \<le> d1"
    proof (rule ccontr)
      assume "\<not> e2 \<le> d1"
      with \<open>d2 < d1\<close> have "d1 \<in> {Suc d2 ..< e2}" by simp
      with 2 have "in_cls items (text ! d1)" by blast
      with 1 assms show False by simp
    qed
    with 1 a' b' show "fst b < fst a" by simp
  qed
  then show ?thesis by (simp add: st)
qed

lemma descending_blocked:
  assumes "\<not> in_cls items c" and "\<And>st. descending (ms b text st)"
  shows "descending (ms (Seq (Cls items lo hi) (Seq (Lit [c]) b)) text st)"
proof -
  let ?f = "ms (Seq (Lit [c]) b) text"
  obtain i g where st: "st = (i, g)" by (cases st)
  have "descending (concat (map ?f (ms (Cls items lo hi) text (i, g))))"
  proof (rule descending_concat)
    show "descending (ms (Cls items lo hi) text (i, g))" by (rule descending_Cls)
  next
    fix x
    show "descending (?f x)"
      using assms(2) by (rule descending_Lit_then)
  next
    fix x y a b'
    assume xs: "x \<in> set (ms (Cls items lo hi) text (i, g))"
      and ys: "y \<in> set (ms (Cls items lo hi) text (i, g))"
      and lt: "fst y < fst x" and b: "b' \<in> set (?f y)"
    obtain p1 g1 where x: "x = (p1, g1)" by (cases x)
    obtain p2 g2 where y: "y = (p2, g2)" by (cases y)
    from b y have "take (Suc 0) (drop p2 text) = [c]"
      by (simp add: ms_Lit_then del: ms.simps split: if_splits)
    from lit_char [OF this] have c: "text ! p2 = c" by simp
    from ms_Cls_chars xs x have "\<forall>k \<in> {i ..< p1}. in_cls items (text ! k)" by blast
    moreover from ms_Cls_chars ys y have "i \<le> p2" by blast
    moreover from lt x y have "p2 < p1" by simp
    ultimately have "in_cls items (text ! p2)" by simp
    with c assms(1) have False by simp
    then show "fst b' < fst a" ..
  qed
  then show ?thesis by (simp add: st)
qed

lemma email_pattern_unfold:
  "email_pattern =
     Seq WordB
      (Seq (Cls [Range CHR ''A'' CHR ''Z'', Range CHR ''a'' CHR ''z'', Range CHR ''0'' CHR ''9'',
                 One CHR ''.'', One CHR ''_'', One CHR ''%'', One CHR ''+'', One CHR ''-''] 1 None)
        (Seq (Lit ''@'')
          (Seq (Cls [Range CHR ''A'' CHR ''Z'', Range CHR ''a'' CHR ''z'', Range CHR ''0'' CHR ''9'',
                     One CHR ''.'', One CHR ''-''] 1 None)
            (Seq (Lit ''.'')
              (Seq (Cls [Range CHR ''A'' CHR ''Z'', One CHR ''|'', Range CHR ''a'' CHR ''z''] 2 None)
                WordB)))))"
  by (simp add: email_pattern_def)

lemma descending_email: "descending (ms email_pattern text st)"
  unfolding email_pattern_unfold
proof (rule descending_WordB_then, rule descending_blocked)
  show "\<not> in_cls [Range CHR ''A'' CHR ''Z'', Range CHR ''a'' CHR ''z'', Range CHR ''0'' CHR ''9'',
                 One CHR ''.'', One CHR ''_'', One CHR ''%'', One CHR ''+'', One CHR ''-''] CHR ''@''"
    by (simp add: in_cls_def code_def)
next
  fix st
  have "\<not> in_cls [Range CHR ''A'' CHR ''Z'', One CHR ''|'', Range CHR ''a'' CHR ''z''] CHR ''.''"
    by (simp add: in_cls_def code_def)
  then show "descending (ms (Seq (Cls [Range CHR ''A'' CHR ''Z'', Range CHR ''a'' CHR ''z'', Range CHR ''0'' CHR ''9'',
                     One CHR ''.'', One CHR ''-''] 1 None)
            (Seq (Lit ''.'')
              (Seq (Cls [Range CHR ''A'' CHR ''Z'', One CHR ''|'', Range CHR ''a'' CHR ''z''] 2 None)
                WordB))) text st)"
    by (rule descending_domain)
qed

lemma email_head_longest:
  assumes "search_from email_pattern text 0 False = Some (i0, j0, g)"
  shows "\<forall>j. rmatch email_pattern text i0 j \<longrightarrow> j \<le> j0"
proof (intro allI impI)
  fix j assume "rmatch email_pattern text i0 j"
  then obtain g' where m: "(j, g') \<in> set (ms email_pattern text (i0, None))"
    using ms_rmatch by blast
  from search_from_Some(4) [OF assms] obtain rest where
    r: "ms email_pattern text (i0, None) = (j0, g) # rest" by blast
  from descending_email [of "text" "(i0, None)"] r have "\<forall>x \<in> set rest. fst x < j0"
    by (simp add: descending_def)
  with m r show "j \<le> j0" by auto
qed

lemma first_match_unique:
  "first_match r text i j \<Longrightarrow> first_match r text i' j' \<Longrightarrow> i = i' \<and> j = j'"
  unfolding first_match_def by (metis le_antisym less_asym less_irrefl)

lemma rmatch_tld:
  assumes "CHR ''|'' \<notin> set text"
  shows "rmatch (Cls [Range CHR ''A'' CHR ''Z'', One CHR ''|'', Range CHR ''a'' CHR ''z''] lo hi) text i j
       = rmatch (Cls [Range CHR ''A'' CHR ''Z'', Range CHR ''a'' CHR ''z''] lo hi) text i j"
proof -
  have "k < length text \<Longrightarrow>
      in_cls [Range CHR ''A'' CHR ''Z'', One CHR ''|'', Range CHR ''a'' CHR ''z''] (text ! k)
      = in_cls [Range CHR ''A'' CHR ''Z'', Range CHR ''a'' CHR ''z''] (text ! k)" for k
  proof -
    assume "k < length text"
    then have "text ! k \<in> set text" by simp
    with assms have "text ! k \<noteq> CHR ''|''" by auto
    then show ?thesis by (simp add: in_cls_def)
  qed
  then show ?thesis by auto
qed

lemma rmatch_email_standard:
  assumes "CHR ''|'' \<notin> set text"
  shows "rmatch email_pattern text i j = rmatch standard_email_pattern text i j"
proof -
  have s: "standard_email_pattern =
     Seq WordB
      (Seq (Cls [Range CHR ''A'' CHR ''Z'', Range CHR ''a'' CHR ''z'', Range CHR ''0'' CHR ''9'',
                 One CHR ''.'', One CHR ''_'', One CHR ''%'', One CHR ''+'', One CHR ''-''] 1 None)
        (Seq (Lit ''@'')
          (Seq (Cls [Range CHR ''A'' CHR ''Z'', Range CHR ''a'' CHR ''z'', Range CHR ''0'' CHR ''9'',
                     One CHR ''.'', One CHR ''-''] 1 None)
            (Seq (Lit ''.'')
              (Seq (Cls [Range CHR ''A'' CHR ''Z'', Range CHR ''a'' CHR ''z''] 2 None)
                WordB)))))"
    by (simp add: standard_email_pattern_def)
  show ?thesis
    unfolding email_pattern_unfold s rmatch.simps(4) rmatch_tld [OF assms] ..
qed

text \<open>
  Claim C5, as amended. Let the text hold no bar \<open>|\<close>. When no part of it matches
  the e-mail pattern, the e-mail is the sentinel \<open>Not found\<close>. When some part does,
  there is a first occurrence, and the e-mail is that part of the text: the match with
  the leftmost start and, from this start, the longest.
\<close>

theorem email_first_match:
  assumes "CHR ''|'' \<notin> set text"
  shows "((\<forall>i j. i \<le> length text \<longrightarrow> \<not> rmatch standard_email_pattern text i j)
            \<longrightarrow> email (extract_information text) = ''Not found'')
    \<and> ((\<exists>i j. i \<le> length text \<and> rmatch standard_email_pattern text i j)
            \<longrightarrow> (\<exists>i0 j0. first_match standard_email_pattern text i0 j0))
    \<and> (\<forall>i0 j0. first_match standard_email_pattern text i0 j0
            \<longrightarrow> i0 \<le> j0 \<and> j0 \<le> length text
              \<and> email (extract_information text) = slice text i0 j0)"
proof -
  note eq = rmatch_email_standard [OF assms]
  have found: "\<exists>i0 j0. first_match standard_email_pattern text i0 j0
        \<and> i0 \<le> j0 \<and> j0 \<le> length text \<and> email (extract_information text) = slice text i0 j0"
    if a: "i \<le> length text" "rmatch standard_email_pattern text i j" for i j
  proof -
    from a have "search_from email_pattern text 0 False \<noteq> None"
      unfolding search_from_None_iff eq by blast
    then obtain i0 j0 g where s: "search_from email_pattern text 0 False = Some (i0, j0, g)"
      by (cases "search_from email_pattern text 0 False") auto
    note f = search_from_Some [OF s]
    from email_head_longest [OF s] have l: "\<forall>j. rmatch email_pattern text i0 j \<longrightarrow> j \<le> j0" .
    have "first_match standard_email_pattern text i0 j0"
      unfolding first_match_def eq [symmetric]
    proof (intro conjI allI impI)
      show "i0 \<le> length text" by (rule f(1))
      show "rmatch email_pattern text i0 j0" by (rule f(2))
      fix i' j' assume m: "i' \<le> length text \<and> rmatch email_pattern text i' j'"
      with f(3) have "i0 \<le> i'" by (meson not_le)
      with m l show "i0 < i' \<or> (i0 = i' \<and> j' \<le> j0)" by (cases "i0 = i'") auto
    qed
    moreover from rmatch_bound [OF f(2) f(1)] have "i0 \<le> j0" "j0 \<le> length text" by simp_all
    moreover from s have "email (extract_information text) = slice text i0 j0"
      by (simp add: email_eq)
    ultimately show ?thesis by blast
  qed
  have 1: "(\<forall>i j. i \<le> length text \<longrightarrow> \<not> rmatch standard_email_pattern text i j)
            \<longrightarrow> email (extract_information text) = ''Not found''"
  proof
    assume "\<forall>i j. i \<le> length text \<longrightarrow> \<not> rmatch standard_email_pattern text i j"
    then have "search_from email_pattern text 0 False = None"
      by (simp add: search_from_None_iff eq)
    then show "email (extract_information text) = ''Not found''"
      by (simp add: email_eq)
  qed
  have 2: "(\<exists>i j. i \<le> length text \<and> rmatch standard_email_pattern text i j)
            \<longrightarrow> (\<exists>i0 j0. first_match standard_email_pattern text i0 j0)"
    using found by blast
  have 3: "\<forall>i0 j0. first_match standard_email_pattern text i0 j0
            \<longrightarrow> i0 \<le> j0 \<and> j0 \<le> length text
              \<and> email (extract_information text) = slice text i0 j0"
  proof (intro allI impI)
    fix i0 j0 assume fm: "first_match standard_email_pattern text i0 j0"
    then have "i0 \<le> length text" "rmatch standard_email_pattern text i0 j0"
      by (simp_all add: first_match_def)
    from found [OF this] obtain i1 j1 where
      x: "first_match standard_email_pattern text i1 j1" "i1 \<le> j1" "j1 \<le> length text"
        "email (extract_information text) = slice text i1 j1" by blast
    from first_match_unique [OF fm x(1)] x show "i0 \<le> j0 \<and> j0 \<le> length text
              \<and> email (extract_information text) = slice text i0 j0" by simp
  qed
  from 1 2 3 show ?thesis by blast
qed

theorem email_first_match_witness:
  "CHR ''|'' \<notin> set ''a@b.cd.ef'' \<and> rmatch standard_email_pattern ''a@b.cd.ef'' 0 6
   \<and> rmatch standard_email_pattern ''a@b.cd.ef'' 0 9
   \<and> first_match standard_email_pattern ''a@b.cd.ef'' 0 9
   \<and> email (extract_information ''a@b.cd.ef'') = ''a@b.cd.ef''"
proof -
  let ?t = "''a@b.cd.ef''"
  have n: "CHR ''|'' \<notin> set ?t" by simp
  have m: "ms email_pattern ?t (0, None) = [(9, None), (6, None)]" by code_simp
  have "\<exists>g'. (6, g') \<in> set (ms email_pattern ?t (0, None))"
    "\<exists>g'. (9, g') \<in> set (ms email_pattern ?t (0, None))"
    unfolding m by simp_all
  then have r6: "rmatch standard_email_pattern ?t 0 6" and r9: "rmatch standard_email_pattern ?t 0 9"
    unfolding ms_rmatch rmatch_email_standard [OF n] by simp_all
  have "search_from email_pattern ?t 0 False = Some (0, 9, None)" by code_simp
  then have e: "email (extract_information ?t) = ?t"
    by (simp add: email_eq slice_def)
  note th = email_first_match [OF n]
  have len: "(0::nat) \<le> length ?t" by simp
  from th r9 len have "\<exists>i0 j0. first_match standard_email_pattern ?t i0 j0"
    by blast
  then obtain i0 j0 where fm: "first_match standard_email_pattern ?t i0 j0"
    by blast
  then have "\<forall>i j. i \<le> length ?t \<and> rmatch standard_email_pattern ?t i j
      \<longrightarrow> i0 < i \<or> (i0 = i \<and> j \<le> j0)"
    unfolding first_match_def by blast
  with r9 len have "i0 < 0 \<or> (i0 = 0 \<and> 9 \<le> j0)" by blast
  then have i0: "i0 = 0" and "9 \<le> j0" by simp_all
  moreover from th fm have "j0 \<le> length ?t" by blast
  ultimately have "j0 = 9" by simp
  with fm i0 n r6 r9 e show ?thesis by simp
qed

text \<open>
  Claim C5 as stated fails twice. The sentinel of the code is \<open>Not found\<close>, with a
  capital letter. And the class \<open>[A-Z|a-z]\<close> of the code takes the bar for a letter
  of the last label: in \<open>a@b.cd|e\<close> the first occurrence of an address is \<open>a@b.cd\<close>,
  and the code returns the whole text.
\<close>

theorem email_counterexample:
  "email (extract_information []) = ''Not found''
   \<and> email (extract_information []) \<noteq> ''not found''
   \<and> first_match standard_email_pattern ''a@b.cd|e'' 0 6
   \<and> email (extract_information ''a@b.cd|e'') = ''a@b.cd|e''
   \<and> email (extract_information ''a@b.cd|e'') \<noteq> slice ''a@b.cd|e'' 0 6"
proof -
  let ?t = "''a@b.cd|e''"
  have s: "email (extract_information []) = ''Not found''"
    by (simp add: email_eq search_from_def email_pattern_def at_boundary_def word_at_def)
  have m: "ms standard_email_pattern ?t (0, None) = [(6, None)]" by code_simp
  have r: "rmatch standard_email_pattern ?t 0 j \<longleftrightarrow> j = 6" for j
    using ms_rmatch [of j standard_email_pattern ?t 0 None] unfolding m by simp
  have f: "first_match standard_email_pattern ?t 0 6"
    unfolding first_match_def using r by auto
  have "search_from email_pattern ?t 0 False = Some (0, 8, None)" by code_simp
  then have e: "email (extract_information ?t) = ?t"
    by (simp add: email_eq slice_def)
  from s f e show ?thesis by (simp add: slice_def)
qed

subsection \<open>The first mention of years\<close>

lemma years_pattern_split: "years_pattern = Seq (Grp (Cls [Digit] 1 None)) years_tail"
  by (simp add: years_pattern_def years_tail_def)

lemma rmatch_digits:
  "rmatch (Cls [Digit] 1 None) t i k \<longleftrightarrow> i < k \<and> (\<forall>n \<in> {i ..< k}. n < length t \<and> is_digit (t ! n))"
  by (auto simp: in_cls_def)

lemma rmatch_le: "rmatch r t i j \<Longrightarrow> i \<le> j"
proof (induction r arbitrary: i j)
  case (Seq a b)
  from Seq.prems obtain k where "k \<in> {i .. j}" by auto
  then show ?case by simp
qed auto

lemma rmatch_Seq_iff: "rmatch (Seq a b) t i j \<longleftrightarrow> (\<exists>k. rmatch a t i k \<and> rmatch b t k j)"
  using rmatch_le by auto

lemma rmatch_spaces:
  "rmatch (Cls [Space] 0 None) t k m \<longleftrightarrow> k \<le> m \<and> (\<forall>n \<in> {k ..< m}. n < length t \<and> is_space (t ! n))"
  by (auto simp: in_cls_def)

lemma rmatch_unit:
  "(\<exists>j. rmatch (Seq (Lit l) (Cls [One c] 0 (Some 1))) t m j) \<longleftrightarrow> take (length l) (drop m t) = l"
proof
  assume "\<exists>j. rmatch (Seq (Lit l) (Cls [One c] 0 (Some 1))) t m j"
  then show "take (length l) (drop m t) = l" by auto
next
  assume "take (length l) (drop m t) = l"
  then have "rmatch (Lit l) t m (m + length l)" by simp
  moreover have "rmatch (Cls [One c] 0 (Some 1)) t (m + length l) (m + length l)" by simp
  ultimately have "rmatch (Seq (Lit l) (Cls [One c] 0 (Some 1))) t m (m + length l)"
    unfolding rmatch_Seq_iff by blast
  then show "\<exists>j. rmatch (Seq (Lit l) (Cls [One c] 0 (Some 1))) t m j" ..
qed

lemma rmatch_years_tail:
  "(\<exists>j. rmatch years_tail t k j) \<longleftrightarrow>
     (\<exists>m. k \<le> m \<and> (\<forall>n \<in> {k ..< m}. n < length t \<and> is_space (t ! n))
          \<and> (take 4 (drop m t) = ''year'' \<or> take 2 (drop m t) = ''yr''))"
proof -
  have "(\<exists>j. rmatch years_tail t k j) \<longleftrightarrow>
      (\<exists>m. rmatch (Cls [Space] 0 None) t k m
         \<and> ((\<exists>j. rmatch (Seq (Lit ''year'') (Cls [One CHR ''s''] 0 (Some 1))) t m j)
            \<or> (\<exists>j. rmatch (Seq (Lit ''yr'') (Cls [One CHR ''s''] 0 (Some 1))) t m j)))"
    unfolding years_tail_def rmatch_Seq_iff [of "Cls [Space] 0 None"] rmatch.simps(5) by blast
  also have "\<dots> \<longleftrightarrow> (\<exists>m. k \<le> m \<and> (\<forall>n \<in> {k ..< m}. n < length t \<and> is_space (t ! n))
          \<and> (take (length ''year'') (drop m t) = ''year'' \<or> take (length ''yr'') (drop m t) = ''yr''))"
    unfolding rmatch_unit rmatch_spaces by blast
  finally have f: "(\<exists>j. rmatch years_tail t k j) \<longleftrightarrow>
      (\<exists>m. k \<le> m \<and> (\<forall>n \<in> {k ..< m}. n < length t \<and> is_space (t ! n))
          \<and> (take (length ''year'') (drop m t) = ''year'' \<or> take (length ''yr'') (drop m t) = ''yr''))" .
  have l: "length ''year'' = 4" "length ''yr'' = 2" by simp_all
  from f show ?thesis unfolding l .
qed

lemma rmatch_years_iff: "(\<exists>j. rmatch years_pattern t i j) \<longleftrightarrow> (\<exists>k. year_mention t i k)"
proof
  assume "\<exists>j. rmatch years_pattern t i j"
  then obtain j k where "rmatch (Cls [Digit] 1 None) t i k" "rmatch years_tail t k j"
    unfolding years_pattern_split rmatch_Seq_iff rmatch.simps(6) by blast
  then have "year_mention t i k"
    using rmatch_years_tail [of t k] unfolding year_mention_def rmatch_digits by blast
  then show "\<exists>k. year_mention t i k" ..
next
  assume "\<exists>k. year_mention t i k"
  then obtain k where k: "year_mention t i k" ..
  then have d: "rmatch (Cls [Digit] 1 None) t i k"
    unfolding year_mention_def rmatch_digits by blast
  from k obtain j where j: "rmatch years_tail t k j"
    using rmatch_years_tail [of t k] unfolding year_mention_def by blast
  have "rmatch years_pattern t i j"
    using d j unfolding years_pattern_split rmatch_Seq_iff rmatch.simps(6) by blast
  then show "\<exists>j. rmatch years_pattern t i j" ..
qed

lemma ms_keeps_group:
  "\<not> has_group r \<Longrightarrow> (j, g') \<in> set (ms r t (i, g)) \<Longrightarrow> g' = g"
proof (induction r arbitrary: i j g g')
  case (Lit l)
  then show ?case by (auto split: if_splits)
next
  case (Cls items lo hi)
  then show ?case by (simp add: ms_Cls del: ms.simps)
next
  case WordB
  then show ?case by (auto split: if_splits)
next
  case (Seq a b)
  from Seq.prems(2) obtain k gk where k: "(k, gk) \<in> set (ms a t (i, g))" "(j, g') \<in> set (ms b t (k, gk))"
    by auto
  from Seq.prems(1) have "\<not> has_group a" "\<not> has_group b" by simp_all
  with Seq.IH k show ?case by blast
next
  case (Alt a b)
  then show ?case by auto
next
  case (Grp a)
  then show ?case by simp
qed

lemma ms_Seq:
  "(j, g') \<in> set (ms (Seq a b) t st) \<longleftrightarrow>
     (\<exists>k gk. (k, gk) \<in> set (ms a t st) \<and> (j, g') \<in> set (ms b t (k, gk)))"
  by auto

lemma years_group:
  assumes "(j, g) \<in> set (ms years_pattern t (i, None))"
  shows "\<exists>k. g = Some (i, k) \<and> year_mention t i k"
proof -
  from assms obtain k gk where k: "(k, gk) \<in> set (ms (Grp (Cls [Digit] 1 None)) t (i, None))"
    and j: "(j, g) \<in> set (ms years_tail t (k, gk))"
    unfolding years_pattern_split ms_Seq by blast
  from k have gk: "gk = Some (i, k)" and m: "\<exists>g''. (k, g'') \<in> set (ms (Cls [Digit] 1 None) t (i, None))"
    unfolding ms_Grp by simp_all
  from m have d: "rmatch (Cls [Digit] 1 None) t i k" unfolding ms_rmatch .
  have "\<not> has_group years_tail" by (simp add: years_tail_def)
  from ms_keeps_group [OF this j] gk have g: "g = Some (i, k)" by simp
  from j have "rmatch years_tail t k j" using ms_rmatch by blast
  then have "\<exists>j. rmatch years_tail t k j" ..
  with d have "year_mention t i k"
    unfolding year_mention_def rmatch_digits rmatch_years_tail by blast
  with g show ?thesis by blast
qed

lemma years_eq:
  "experience_years (extract_information text) =
     (case search_from years_pattern (lower text) 0 False of
        None \<Rightarrow> ''Not specified''
      | Some (i, j, g) \<Rightarrow> (case g of None \<Rightarrow> [] | Some (a, b) \<Rightarrow> slice (lower text) a b))"
  by (simp add: extract_information_def Let_def findall_unfold match_item_def years_pattern_def
      split: option.splits)

lemma year_mention_start: "year_mention t i k \<Longrightarrow> i < length t"
  unfolding year_mention_def by fastforce

text \<open>
  Claim C6, as amended. When the lower-cased text has no mention of years, the
  experience is the sentinel \<open>Not specified\<close>. When it has one, the experience is
  the digits of the leftmost mention, whatever mentions follow; by
  \<open>year_mention_end\<close> below these digits are not followed by another digit.
\<close>

theorem experience_first_mention:
  "((\<forall>i k. \<not> year_mention (lower text) i k)
      \<longrightarrow> experience_years (extract_information text) = ''Not specified'')
   \<and> (\<forall>i k. year_mention (lower text) i k \<longrightarrow>
        (\<exists>i0 k0. i0 \<le> i \<and> year_mention (lower text) i0 k0
           \<and> (\<forall>i' k'. year_mention (lower text) i' k' \<longrightarrow> i0 \<le> i')
           \<and> experience_years (extract_information text) = slice (lower text) i0 k0))"
proof (intro conjI allI impI)
  assume "\<forall>i k. \<not> year_mention (lower text) i k"
  then have "\<forall>i j. \<not> rmatch years_pattern (lower text) i j"
    using rmatch_years_iff by blast
  then have "search_from years_pattern (lower text) 0 False = None"
    by (simp add: search_from_None_iff)
  then show "experience_years (extract_information text) = ''Not specified''"
    by (simp add: years_eq)
next
  fix i k assume a: "year_mention (lower text) i k"
  then obtain j where j: "rmatch years_pattern (lower text) i j"
    using rmatch_years_iff by blast
  from a have "i \<le> length (lower text)" using year_mention_start by fastforce
  with j have "search_from years_pattern (lower text) 0 False \<noteq> None"
    unfolding search_from_None_iff by blast
  then obtain i0 j0 g where s: "search_from years_pattern (lower text) 0 False = Some (i0, j0, g)"
    by (cases "search_from years_pattern (lower text) 0 False") auto
  note f = search_from_Some [OF s]
  from f(4) have "(j0, g) \<in> set (ms years_pattern (lower text) (i0, None))" by auto
  from years_group [OF this] obtain k0 where k0: "g = Some (i0, k0)" "year_mention (lower text) i0 k0"
    by blast
  from f(3) j have "i0 \<le> i" by (meson not_le)
  moreover have "\<forall>i' k'. year_mention (lower text) i' k' \<longrightarrow> i0 \<le> i'"
    using f(3) rmatch_years_iff by (meson not_le)
  moreover from s k0 have "experience_years (extract_information text) = slice (lower text) i0 k0"
    by (simp add: years_eq)
  ultimately show "\<exists>i0 k0. i0 \<le> i \<and> year_mention (lower text) i0 k0
           \<and> (\<forall>i' k'. year_mention (lower text) i' k' \<longrightarrow> i0 \<le> i')
           \<and> experience_years (extract_information text) = slice (lower text) i0 k0"
    using k0(2) by blast
qed

theorem experience_first_mention_witness:
  "year_mention (lower ''5 Years, 7 yrs'') 0 1
   \<and> experience_years (extract_information ''5 Years, 7 yrs'') = ''5''"
proof -
  have l: "lower ''5 Years, 7 yrs'' = ''5 years, 7 yrs''"
    by code_simp
  have "0 < (1 :: nat) \<and> (\<forall>n \<in> {0 ..< 1 :: nat}. n < length ''5 years, 7 yrs'' \<and> is_digit (''5 years, 7 yrs'' ! n))
      \<and> (1 :: nat) \<le> 2 \<and> (\<forall>n \<in> {1 ..< 2 :: nat}. n < length ''5 years, 7 yrs'' \<and> is_space (''5 years, 7 yrs'' ! n))
      \<and> take 4 (drop 2 ''5 years, 7 yrs'') = ''year''"
    by (simp add: is_digit_def is_space_def code_def)
  then have m: "year_mention ''5 years, 7 yrs'' 0 1"
    unfolding year_mention_def by blast
  have "search_from years_pattern ''5 years, 7 yrs'' 0 False = Some (0, 7, Some (0, 1))"
    by code_simp
  then have e: "experience_years (extract_information ''5 Years, 7 yrs'') = ''5''"
    by (simp add: years_eq l slice_def)
  from experience_first_mention [of "''5 Years, 7 yrs''"] m e l show ?thesis
    by simp
qed

text \<open>
  Claim C6 as stated fails: the sentinel of the code is \<open>Not specified\<close>, with a
  capital letter.
\<close>

theorem experience_sentinel_counterexample:
  "experience_years (extract_information []) = ''Not specified''
   \<and> experience_years (extract_information []) \<noteq> ''not specified''"
  by (simp add: years_eq search_from_def years_pattern_def lower_def in_cls_def)

lemma digit_not_space: "is_digit c \<Longrightarrow> \<not> is_space c"
  by (auto simp: is_digit_def is_space_def)

lemma year_mention_end:
  assumes "year_mention t i k"
  shows "k \<le> length t \<and> (k < length t \<longrightarrow> \<not> is_digit (t ! k))"
proof -
  from assms obtain m where m: "k \<le> m" "\<forall>n \<in> {k ..< m}. n < length t \<and> is_space (t ! n)"
    and u: "take 4 (drop m t) = ''year'' \<or> take 2 (drop m t) = ''yr''"
    unfolding year_mention_def by blast
  from u have y: "m < length t \<and> t ! m = CHR ''y''"
  proof
    assume h: "take 4 (drop m t) = ''year''"
    then have "length (take 4 (drop m t)) = 4" by simp
    then have l: "m < length t" by simp
    from h have "take 4 (drop m t) ! 0 = CHR ''y''" by simp
    with l show ?thesis by simp
  next
    assume h: "take 2 (drop m t) = ''yr''"
    then have "length (take 2 (drop m t)) = 2" by simp
    then have l: "m < length t" by simp
    from h have "take 2 (drop m t) ! 0 = CHR ''y''" by simp
    with l show ?thesis by simp
  qed
  have ny: "\<not> is_digit CHR ''y''" by (simp add: is_digit_def code_def)
  show ?thesis
  proof (cases "k = m")
    case True
    with y ny show ?thesis by simp
  next
    case False
    with m have "k \<in> {k ..< m}" by simp
    with m(2) have "k < length t" "is_space (t ! k)" by auto
    then show ?thesis using digit_not_space by auto
  qed
qed

section \<open>Properties of the dispatch on the file name\<close>

lemma split_sep_ne: "split_sep sep cur s \<noteq> []"
  by (induction s arbitrary: cur) auto

lemma split_sep_no_sep: "sep \<notin> set ext \<Longrightarrow> split_sep sep cur ext = [cur @ ext]"
  by (induction ext arbitrary: cur) auto

lemma split_sep_last:
  "sep \<notin> set ext \<Longrightarrow> last (split_sep sep cur (stem @ sep # ext)) = ext"
proof (induction stem arbitrary: cur)
  case Nil
  then show ?case by (simp add: split_sep_no_sep)
next
  case (Cons c stem)
  then show ?case by (simp add: split_sep_ne)
qed

text \<open>
  The extension that \<open>parse_resume\<close> computes is the lower-cased text after the last
  dot of the name, and the lower-cased name itself when it has no dot.
\<close>

lemma file_extension_suffix:
  "CHR ''.'' \<notin> set ext \<Longrightarrow> file_extension (stem @ ''.'' @ ext) = lower ext"
  by (simp add: file_extension_def str_split_on_def split_sep_last)

lemma file_extension_no_dot:
  "CHR ''.'' \<notin> set name \<Longrightarrow> file_extension name = lower name"
  by (simp add: file_extension_def str_split_on_def split_sep_no_sep)

text \<open>
  Claim C9. For an upload whose extension, compared in lower case, is none of
  \<open>pdf\<close>, \<open>docx\<close>, \<open>txt\<close>, \<open>parse_resume\<close> returns \<open>None\<close>: no reader is
  called, no placeholder text is built, nothing is raised.
\<close>

theorem parse_resume_unknown_extension:
  "file_extension name \<notin> {''pdf'', ''docx'', ''txt''}
   \<Longrightarrow> parse_resume rd (Upload name content) = None"
  by (simp add: parse_resume_def Let_def)

theorem parse_resume_unknown_extension_witness:
  "file_extension ''resume.final.doc'' = ''doc''
   \<and> parse_resume \<lparr>pdf_reader = (\<lambda>b. Inr []), docx_document = (\<lambda>b. Inr []),
        read_decode = (\<lambda>b. Inr b)\<rparr> (Upload ''resume.final.doc'' ''Python, 5 years'') = None"
proof -
  have e: "file_extension ''resume.final.doc'' = ''doc''"
    using file_extension_suffix [of "''doc''" "''resume.final''"]
    by (simp add: lower_def lower_char_def code_def)
  then have "file_extension ''resume.final.doc'' \<notin> {''pdf'', ''docx'', ''txt''}"
    by simp
  from parse_resume_unknown_extension [OF this] e show ?thesis
    by simp
qed

section \<open>Properties of model selection\<close>

text \<open>
  With a key, \<open>_get_llm\<close> returns the handle of the policy; without one the
  constructor raises, and \<open>_get_safe_llm\<close> raises too, from its handler, before any
  call to the backend. \<open>app.py\<close> builds the analyzer only when the variable
  \<open>GROQ_API_KEY\<close> is set.
\<close>

lemma get_llm_resolved: "get_llm (Some key) choice = Inr (resolved key choice)"
  by (simp add: get_llm_def chat_groq_def resolved_def lightweight_def heavyweight_def
      fast_marker_def powerful_marker_def)

lemma get_llm_no_key: "get_llm None choice = Inl groq_error"
  by (simp add: get_llm_def chat_groq_def)

lemma get_safe_llm_no_key:
  "fst (get_safe_llm respond None choice w) = Inl groq_error
   \<and> calls (snd (get_safe_llm respond None choice w)) = calls w"
  by (simp add: get_safe_llm_def probe_def get_llm_no_key chat_groq_def groq_error_def)

lemma resolved_names:
  "model_name (resolved key choice) = ''llama-3.1-8b-instant''
   \<or> model_name (resolved key choice) = ''llama-3.1-70b-versatile''"
  by (simp add: resolved_def lightweight_def heavyweight_def)

text \<open>
  Claim C7. With the key set, \<open>_get_llm\<close> never fails and follows the policy in its
  order: a label with the marker \<open>8B\<close> or \<open>Fast\<close> resolves to the lightweight model;
  otherwise a label with the marker \<open>70B\<close> or \<open>Powerful\<close> resolves to the heavyweight
  model; every other label resolves to the lightweight model. The two labels of the
  user interface resolve to distinct handles and \<open>unrecognized label\<close> to the
  lightweight one.
\<close>

theorem get_llm_policy:
  "(\<exists>llm. get_llm (Some key) choice = Inr llm)
   \<and> (fast_marker choice \<longrightarrow> get_llm (Some key) choice = Inr (lightweight key))
   \<and> (\<not> fast_marker choice \<and> powerful_marker choice
        \<longrightarrow> get_llm (Some key) choice = Inr (heavyweight key))
   \<and> (\<not> fast_marker choice \<and> \<not> powerful_marker choice
        \<longrightarrow> get_llm (Some key) choice = Inr (lightweight key))
   \<and> get_llm (Some key) ''Groq (Llama-3.1-8B - Fast)''
       \<noteq> get_llm (Some key) ''Groq (Llama-3.1-70B - Powerful)''
   \<and> get_llm (Some key) ''unrecognized label'' = Inr (lightweight key)"
  by (simp add: get_llm_def chat_groq_def lightweight_def heavyweight_def fast_marker_def
      powerful_marker_def)

theorem get_llm_policy_witness:
  "fast_marker ''Groq (Llama-3.1-8B - Fast)''
   \<and> get_llm (Some ''gsk_1'') ''Groq (Llama-3.1-8B - Fast)'' = Inr (lightweight ''gsk_1'')
   \<and> \<not> fast_marker ''Groq (Llama-3.1-70B - Powerful)''
   \<and> powerful_marker ''Groq (Llama-3.1-70B - Powerful)''
   \<and> get_llm (Some ''gsk_1'') ''Groq (Llama-3.1-70B - Powerful)'' = Inr (heavyweight ''gsk_1'')
   \<and> \<not> fast_marker ''unrecognized label'' \<and> \<not> powerful_marker ''unrecognized label''
   \<and> get_llm (Some ''gsk_1'') ''unrecognized label'' = Inr (lightweight ''gsk_1'')"
  using get_llm_policy [of "''gsk_1''" "''Groq (Llama-3.1-8B - Fast)''"]
    get_llm_policy [of "''gsk_1''" "''Groq (Llama-3.1-70B - Powerful)''"]
    get_llm_policy [of "''gsk_1''" "''unrecognized label''"]
  by (simp add: fast_marker_def powerful_marker_def)

text \<open>
  Claim C4. With the key set, \<open>_get_safe_llm\<close> never raises: it returns a handle of
  one of the two models whatever the probe does. It issues exactly one call, the probe
  of the resolved model, and none after it. When that call raises, the result is the
  lightweight handle and the exception goes no further; when it returns, the result is
  the resolved handle and nothing is printed.
\<close>

theorem get_safe_llm_fallback:
  "(\<exists>llm. fst (get_safe_llm respond (Some key) choice w) = Inr llm
       \<and> (model_name llm = ''llama-3.1-8b-instant''
          \<or> model_name llm = ''llama-3.1-70b-versatile''))
   \<and> (\<forall>e. respond (length (calls w)) (model_name (resolved key choice)) test_prompt = Inl e
        \<longrightarrow> fst (get_safe_llm respond (Some key) choice w) = Inr (lightweight key))
   \<and> (\<forall>t. respond (length (calls w)) (model_name (resolved key choice)) test_prompt = Inr t
        \<longrightarrow> fst (get_safe_llm respond (Some key) choice w) = Inr (resolved key choice)
          \<and> stdout (snd (get_safe_llm respond (Some key) choice w)) = stdout w)
   \<and> calls (snd (get_safe_llm respond (Some key) choice w))
       = calls w @ [(model_name (resolved key choice), test_prompt)]"
proof -
  let ?r = "respond (length (calls w)) (model_name (resolved key choice)) test_prompt"
  show ?thesis
  proof (cases ?r)
    case (Inl e)
    obtain m where e: "e = PyException m" by (cases e)
    from Inl e show ?thesis
      by (simp add: get_safe_llm_def probe_def get_llm_resolved invoke_def chat_groq_def
          lightweight_def Let_def)
  next
    case (Inr t)
    then show ?thesis
      using resolved_names [of key choice]
      by (simp add: get_safe_llm_def probe_def get_llm_resolved invoke_def Let_def)
  qed
qed

theorem get_safe_llm_fallback_witness:
  "(\<lambda>n m p. Inl (PyException ''model decommissioned'')) (length (calls \<lparr>calls = [], stdout = []\<rparr>))
      (model_name (resolved ''gsk_1'' ''Groq (Llama-3.1-70B - Powerful)'')) test_prompt
     = (Inl (PyException ''model decommissioned'') :: py_exception + string)
   \<and> fst (get_safe_llm (\<lambda>n m p. Inl (PyException ''model decommissioned'')) (Some ''gsk_1'')
         ''Groq (Llama-3.1-70B - Powerful)'' \<lparr>calls = [], stdout = []\<rparr>)
       = Inr (lightweight ''gsk_1'')
   \<and> calls (snd (get_safe_llm (\<lambda>n m p. Inl (PyException ''model decommissioned''))
         (Some ''gsk_1'') ''Groq (Llama-3.1-70B - Powerful)'' \<lparr>calls = [], stdout = []\<rparr>))
       = [(''llama-3.1-70b-versatile'', test_prompt)]"
  using get_safe_llm_fallback [of "\<lambda>n m p. Inl (PyException ''model decommissioned'')"
      "''gsk_1''" "''Groq (Llama-3.1-70B - Powerful)''" "\<lparr>calls = [], stdout = []\<rparr>"]
  by (simp add: resolved_def heavyweight_def fast_marker_def powerful_marker_def)

section \<open>Properties of the result coercion\<close>

lemma find_ge: "- 1 \<le> str_find c s"
  by (induction s) (auto simp: Let_def)

lemma find_nonneg_iff: "0 \<le> str_find c s \<longleftrightarrow> c \<in> set s"
  using find_ge [of c] by (induction s) (auto simp: Let_def)

lemma find_index: "0 \<le> str_find c s \<Longrightarrow> nat (str_find c s) < length s \<and> s ! nat (str_find c s) = c"
proof (induction s)
  case Nil
  then show ?case by simp
next
  case (Cons x s)
  show ?case
  proof (cases "x = c")
    case True
    then show ?thesis by simp
  next
    case False
    with Cons.prems have p: "0 \<le> str_find c s" by (simp add: Let_def split: if_splits)
    with False have "str_find c (x # s) = str_find c s + 1" by (simp add: Let_def)
    moreover from p have "nat (str_find c s + 1) = Suc (nat (str_find c s))" by simp
    ultimately show ?thesis using Cons.IH [OF p] by simp
  qed
qed

lemma find_prefix: "c \<notin> set pre \<Longrightarrow> str_find c (pre @ c # rest) = int (length pre)"
  by (induction pre) (auto simp: Let_def)

lemma rfind_suffix: "c \<notin> set post \<Longrightarrow> str_rfind c (pre @ c # post) = int (length pre)"
  using find_prefix [of c "rev post" "rev pre"] by (simp add: str_rfind_def Let_def)

lemma rfind_index:
  assumes "0 \<le> str_rfind c s"
  shows "nat (str_rfind c s) < length s \<and> s ! nat (str_rfind c s) = c"
proof -
  let ?r = "str_find c (rev s)"
  from assms have r: "0 \<le> ?r" by (simp add: str_rfind_def Let_def split: if_splits)
  from find_index [OF r] have i: "nat ?r < length s" "rev s ! nat ?r = c" by simp_all
  from r have e: "str_rfind c s = int (length s) - 1 - ?r" by (simp add: str_rfind_def Let_def)
  with i r have n: "nat (str_rfind c s) = length s - 1 - nat ?r" by simp
  from i(1) have "rev s ! nat ?r = s ! (length s - Suc (nat ?r))" by (rule rev_nth)
  with i n show ?thesis by simp
qed

lemma extracted_pair: "extracted text \<noteq> None \<Longrightarrow> brace_pair text"
proof -
  assume "extracted text \<noteq> None"
  then have s: "0 \<le> str_find CHR ''{'' text" and e: "str_find CHR ''{'' text < str_rfind CHR ''}'' text + 1"
    by (simp_all add: extracted_def split: if_splits)
  from s e have r: "0 \<le> str_rfind CHR ''}'' text" by simp
  let ?i = "nat (str_find CHR ''{'' text)" and ?j = "nat (str_rfind CHR ''}'' text)"
  from find_index [OF s] have i: "?i < length text" "text ! ?i = CHR ''{''" by simp_all
  from rfind_index [OF r] have j: "?j < length text" "text ! ?j = CHR ''}''" by simp_all
  from s e have "?i \<le> ?j" by simp
  moreover from i j have "?i \<noteq> ?j" by auto
  ultimately have "?i < ?j" by linarith
  with i j show "brace_pair text" unfolding brace_pair_def by blast
qed

lemma safe_json_parse_extracted:
  "safe_json_parse limit text d =
     (case extracted text of
        None \<Rightarrow> d
      | Some s \<Rightarrow> (case json_loads limit s of Some v \<Rightarrow> v | None \<Rightarrow> d))"
  by (simp add: safe_json_parse_def extracted_def Let_def)

lemma job_match_analysis_result:
  "fst (job_match_analysis limit respond k r j choice w) =
     (case completion respond k r j choice w of
        Inl e \<Rightarrow> Inl e
      | Inr content \<Rightarrow> Inr (safe_json_parse limit content job_match_default))"
  by (simp add: job_match_analysis_def completion_def Let_def split: prod.splits sum.splits)

lemma completion_returns:
  "completion (\<lambda>n m p. Inr c) (Some key) r j choice w = Inr c"
  by (simp add: completion_def get_safe_llm_def probe_def get_llm_resolved invoke_def Let_def
      split: prod.splits)

text \<open>
  The decoder refuses a text nested deeper than the limit, as \<open>json.loads\<close> does when
  the recursion limit of the interpreter is reached; \<open>_safe_json_parse\<close> then returns
  the default.
\<close>

lemma json_loads_nesting:
  \<open>json_loads 2 ''{"a": {"b": {"c": 1}}}'' = None
   \<and> json_loads 3 ''{"a": {"b": {"c": 1}}}''
       = Some (JObj [(py ''a'', JObj [(py ''b'', JObj [(py ''c'', JInt 1)])])])
   \<and> json_loads 2 ''[[[]]]'' = None
   \<and> json_loads 2 ''[[], {}]'' = Some (JArr [JArr [], JObj []])
   \<and> safe_json_parse 2 ''{"a": {"b": {"c": 1}}}'' job_match_default = job_match_default\<close>
  by code_simp

text \<open>
  Claim C1. A completion without a \<open>{\<close> before a \<open>}\<close> is coerced to the default,
  unchanged, and so is every completion whose piece between the first \<open>{\<close> and the
  last \<open>}\<close> the decoder refuses. When the completion call of \<open>job_match_analysis\<close>
  returns such a text, the result is the default match result, and no exception.
\<close>

theorem safe_json_parse_default:
  "(\<not> brace_pair text \<longrightarrow> safe_json_parse limit text d = d)
   \<and> ((\<forall>s. extracted text = Some s \<longrightarrow> json_loads limit s = None)
        \<longrightarrow> safe_json_parse limit text d = d)
   \<and> (completion respond k r j choice w = Inr text
        \<and> (\<not> brace_pair text \<or> (\<forall>s. extracted text = Some s \<longrightarrow> json_loads limit s = None))
       \<longrightarrow> fst (job_match_analysis limit respond k r j choice w) = Inr job_match_default)"
proof -
  have a: "(\<forall>s. extracted text = Some s \<longrightarrow> json_loads limit s = None)
      \<Longrightarrow> safe_json_parse limit text d = d" for d
    by (cases "extracted text") (simp_all add: safe_json_parse_extracted)
  have n: "\<not> brace_pair text \<Longrightarrow> extracted text = None"
    using extracted_pair by blast
  then have b: "\<not> brace_pair text \<Longrightarrow> safe_json_parse limit text d = d" for d
    by (simp add: safe_json_parse_extracted)
  from a b show ?thesis
    by (auto simp add: job_match_analysis_result)
qed

lemma brace_pair_open: "brace_pair text \<Longrightarrow> CHR ''{'' \<in> set text"
  unfolding brace_pair_def by (metis less_trans nth_mem)

lemma extracted_no_open: "CHR ''{'' \<notin> set text \<Longrightarrow> extracted text = None"
  using find_nonneg_iff [of "CHR ''{''" "text"] by (simp add: extracted_def)

theorem safe_json_parse_default_witness:
  "completion (\<lambda>n m p. Inr ''Sorry, I cannot rate this resume.'') (Some ''gsk_1'') ''cv''
       ''job'' ''Groq (Llama-3.1-8B - Fast)'' \<lparr>calls = [], stdout = []\<rparr>
     = Inr ''Sorry, I cannot rate this resume.''
   \<and> \<not> brace_pair ''Sorry, I cannot rate this resume.''
   \<and> fst (job_match_analysis 993 (\<lambda>n m p. Inr ''Sorry, I cannot rate this resume.'')
         (Some ''gsk_1'') ''cv'' ''job'' ''Groq (Llama-3.1-8B - Fast)''
         \<lparr>calls = [], stdout = []\<rparr>)
       = Inr job_match_default"
proof -
  let ?c = "''Sorry, I cannot rate this resume.''"
  have c: "completion (\<lambda>n m p. Inr ?c) (Some ''gsk_1'') ''cv'' ''job''
      ''Groq (Llama-3.1-8B - Fast)'' \<lparr>calls = [], stdout = []\<rparr> = Inr ?c"
    by (rule completion_returns)
  have o: "CHR ''{'' \<notin> set ?c" by simp
  then have n: "\<not> brace_pair ?c" using brace_pair_open by blast
  from o have "extracted ?c = None" by (rule extracted_no_open)
  with c n safe_json_parse_default [of ?c 993 job_match_default "\<lambda>n m p. Inr ?c"
      "Some ''gsk_1''" "''cv''" "''job''" "''Groq (Llama-3.1-8B - Fast)''"
      "\<lparr>calls = [], stdout = []\<rparr>"]
  show ?thesis by simp
qed

lemma extracted_object:
  assumes "obj \<noteq> []" "hd obj = CHR ''{''" "last obj = CHR ''}''"
    and "CHR ''{'' \<notin> set pre" "CHR ''}'' \<notin> set post"
  shows "extracted (pre @ obj @ post) = Some obj"
proof -
  from assms(1,2) obtain body where b: "obj = CHR ''{'' # body" by (cases obj) auto
  from assms(1,3) obtain front where f: "obj = front @ [CHR ''}'']"
    by (cases obj rule: rev_cases) auto
  have s: "str_find CHR ''{'' (pre @ obj @ post) = int (length pre)"
    using find_prefix [OF assms(4), of "body @ post"] b by simp
  have "str_rfind CHR ''}'' ((pre @ front) @ CHR ''}'' # post) = int (length (pre @ front))"
    using assms(5) by (rule rfind_suffix)
  with f have e: "str_rfind CHR ''}'' (pre @ obj @ post) + 1 = int (length pre + length obj)"
    by simp
  from assms(1) have "0 < length obj" by simp
  with s e show ?thesis
    by (simp add: extracted_def slice_def)
qed

text \<open>
  Claim C2, as amended. Let the completion be an object text (from its \<open>{\<close> to its
  \<open>}\<close>) that \<open>json.loads\<close> decodes: well formed, nested no deeper than the
  recursion limit allows, its integer literals within the digit limit. Let it stand
  between a prose without \<open>{\<close> before it and a prose without \<open>}\<close> after it. Then
  the coercion returns the decoded object as it is, whatever its shape and its numbers,
  and so does \<open>job_match_analysis\<close>.
\<close>

theorem safe_json_parse_verbatim:
  assumes "json_loads limit obj = Some v" "obj \<noteq> []" "hd obj = CHR ''{''"
    and "last obj = CHR ''}''" "CHR ''{'' \<notin> set pre" "CHR ''}'' \<notin> set post"
  shows "safe_json_parse limit (pre @ obj @ post) d = v
    \<and> (completion respond k r j choice w = Inr (pre @ obj @ post)
        \<longrightarrow> fst (job_match_analysis limit respond k r j choice w) = Inr v)"
  using extracted_object [OF assms(2-6)] assms(1)
  by (simp add: safe_json_parse_extracted job_match_analysis_result)

theorem safe_json_parse_verbatim_witness:
  \<open>json_loads 993 ''{"match_score": 42, "category_scores": {"skills": 90, "experience": 10, "education": 55, "culture_fit": 0}, "strengths": ["Python"], "improvements": []}''
     = Some (JObj [(py ''match_score'', JInt 42),
          (py ''category_scores'', JObj [(py ''skills'', JInt 90), (py ''experience'', JInt 10),
             (py ''education'', JInt 55), (py ''culture_fit'', JInt 0)]),
          (py ''strengths'', JArr [JStr (py ''Python'')]),
          (py ''improvements'', JArr [])])
   \<and> fst (job_match_analysis 993
         (\<lambda>n m p. Inr (''Here is my assessment: '' @ ''{"match_score": 42, "category_scores": {"skills": 90, "experience": 10, "education": 55, "culture_fit": 0}, "strengths": ["Python"], "improvements": []}'' @ '' Good luck!''))
         (Some ''gsk_1'') ''cv'' ''job'' ''Groq (Llama-3.1-8B - Fast)''
         \<lparr>calls = [], stdout = []\<rparr>)
     = Inr (JObj [(py ''match_score'', JInt 42),
          (py ''category_scores'', JObj [(py ''skills'', JInt 90), (py ''experience'', JInt 10),
             (py ''education'', JInt 55), (py ''culture_fit'', JInt 0)]),
          (py ''strengths'', JArr [JStr (py ''Python'')]),
          (py ''improvements'', JArr [])])\<close>
proof -
  let ?obj = \<open>''{"match_score": 42, "category_scores": {"skills": 90, "experience": 10, "education": 55, "culture_fit": 0}, "strengths": ["Python"], "improvements": []}''\<close>
  let ?v = "JObj [(py ''match_score'', JInt 42),
          (py ''category_scores'', JObj [(py ''skills'', JInt 90), (py ''experience'', JInt 10),
             (py ''education'', JInt 55), (py ''culture_fit'', JInt 0)]),
          (py ''strengths'', JArr [JStr (py ''Python'')]),
          (py ''improvements'', JArr [])]"
  let ?text = "''Here is my assessment: '' @ ?obj @ '' Good luck!''"
  have l: "json_loads 993 ?obj = Some ?v"
    by code_simp
  have c: "completion (\<lambda>n m p. Inr ?text) (Some ''gsk_1'') ''cv'' ''job''
      ''Groq (Llama-3.1-8B - Fast)'' \<lparr>calls = [], stdout = []\<rparr> = Inr ?text"
    by (rule completion_returns)
  have "?obj \<noteq> []" "hd ?obj = CHR ''{''" "last ?obj = CHR ''}''"
    "CHR ''{'' \<notin> set ''Here is my assessment: ''" "CHR ''}'' \<notin> set '' Good luck!''"
    by simp_all
  from safe_json_parse_verbatim [OF l this, of job_match_default "\<lambda>n m p. Inr ?text"
      "Some ''gsk_1''" "''cv''" "''job''" "''Groq (Llama-3.1-8B - Fast)''"
      "\<lparr>calls = [], stdout = []\<rparr>"] c l
  show ?thesis by simp
qed

text \<open>
  Claim C2 as stated fails: here the completion holds exactly one well-formed object,
  after a prose with braces of its own. The piece from the first \<open>{\<close> to the last
  \<open>}\<close> is no JSON text, and the result is the default, not the object.
\<close>

theorem safe_json_parse_prose_braces_counterexample:
  \<open>json_loads 993 ''{"match_score": 42}'' = Some (JObj [(py ''match_score'', JInt 42)])
   \<and> safe_json_parse 993 (''Score {final}: '' @ ''{"match_score": 42}'') job_match_default
       = job_match_default
   \<and> job_match_default \<noteq> JObj [(py ''match_score'', JInt 42)]\<close>
  by code_simp

end
